theory Spec2Isabelle
  imports Complex_Main
begin

section \<open>JavaScript numbers\<close>

text \<open>
  The values of the TypeScript type \<open>number\<close>: the 64-bit binary floating-point numbers.
  A finite value is carried as the real number it denotes, and every arithmetic
  operation rounds its exact result to the nearest double, ties to the even significand,
  with gradual underflow below \<open>2^-1022\<close> and overflow to an infinity from \<open>2^1024\<close> on.
  The special values are \<open>NaN\<close>, the two infinities and the negative zero; \<open>Fin 0\<close> is
  the positive zero.
\<close>

subsection \<open>Rounding to the nearest double\<close>

definition p2 :: "int \<Rightarrow> real" where
  \<comment> \<open>\<open>2^k\<close> for an integer \<open>k\<close>\<close>
  "p2 k = 2 powi k"

text \<open>The binary exponent of a positive real: \<open>2^(expo r) \<le> r < 2^(expo r + 1)\<close>.\<close>

function expo :: "real \<Rightarrow> int" where
  "expo r = (if r \<le> 0 then 0
             else if 2 \<le> r then expo (r / 2) + 1
             else if r < 1 then expo (r * 2) - 1
             else 0)"
  by pat_completeness auto
termination
proof (relation "measure (\<lambda>r. nat \<lceil>r\<rceil> + 2 * nat \<lceil>1 / r\<rceil>)")
  show "wf (measure (\<lambda>r. nat \<lceil>r\<rceil> + 2 * nat \<lceil>1 / r\<rceil>))" by simp
next
  fix r :: real
  assume a: "\<not> r \<le> 0" "2 \<le> r"
  have "\<lceil>r / 2\<rceil> \<le> \<lceil>r - 1\<rceil>" using a by (intro ceiling_mono) simp
  then have 1: "\<lceil>r / 2\<rceil> < \<lceil>r\<rceil>" by simp
  have 2: "\<lceil>1 / (r / 2)\<rceil> = 1" "\<lceil>1 / r\<rceil> = 1"
    using a by (simp_all add: ceiling_eq_iff)
  have "0 < \<lceil>r\<rceil>" using a by simp
  with 1 2 show "(r / 2, r) \<in> measure (\<lambda>r. nat \<lceil>r\<rceil> + 2 * nat \<lceil>1 / r\<rceil>)"
    by simp
next
  fix r :: real
  assume a: "\<not> r \<le> 0" "\<not> 2 \<le> r" "r < 1"
  have "\<lceil>r\<rceil> = 1" using a by (simp add: ceiling_eq_iff)
  then have c1: "nat \<lceil>r\<rceil> = 1" by simp
  have "\<lceil>r * 2\<rceil> \<le> 2" using a by (simp add: ceiling_le_iff)
  then have c2: "nat \<lceil>r * 2\<rceil> \<le> 2" by simp
  have y: "1 < 1 / r" using a by simp
  then have y2: "2 \<le> \<lceil>1 / r\<rceil>" by linarith
  have "1 / (r * 2) \<le> of_int \<lceil>1 / r\<rceil> / 2"
    using a by (simp add: field_simps)
  also have "\<dots> \<le> of_int (\<lceil>1 / r\<rceil> - 1)" using y2 by simp
  finally have "\<lceil>1 / (r * 2)\<rceil> \<le> \<lceil>1 / r\<rceil> - 1" by (rule ceiling_le)
  then have c3: "nat \<lceil>1 / (r * 2)\<rceil> + 1 \<le> nat \<lceil>1 / r\<rceil>" using y2 by linarith
  show "(r * 2, r) \<in> measure (\<lambda>r. nat \<lceil>r\<rceil> + 2 * nat \<lceil>1 / r\<rceil>)"
    unfolding in_measure using c1 c2 c3 by linarith
qed

declare expo.simps [simp del]

definition round_half_even :: "real \<Rightarrow> int" where
  \<comment> \<open>the nearest integer, the even one of two that are equally near\<close>
  "round_half_even m =
     (let f = \<lfloor>m\<rfloor>; d = m - of_int f
      in if d < 1 / 2 then f else if 1 / 2 < d then f + 1 else if even f then f else f + 1)"

definition ulp :: "real \<Rightarrow> real" where
  \<comment> \<open>the spacing of the doubles at a positive real: 52 bits below its exponent, and
      \<open>2^-1074\<close> throughout the subnormal range\<close>
  "ulp r = p2 (max (expo r) (- 1022) - 52)"

definition rne :: "real \<Rightarrow> real" where
  \<comment> \<open>a non-negative real rounded to the grid of the doubles, the exponent unbounded above\<close>
  "rne r = of_int (round_half_even (r / ulp r)) * ulp r"

definition nearest :: "real \<Rightarrow> real" where
  "nearest r = (if r < 0 then - rne (- r) else rne r)"

subsection \<open>The values and the operations\<close>

datatype number = NaN | PosInf | NegInf | NegZero | Fin real

definition is_nan :: "number \<Rightarrow> bool" where
  "is_nan a = (a = NaN)"

definition is_inf :: "number \<Rightarrow> bool" where
  "is_inf a = (a = PosInf \<or> a = NegInf)"

definition is_zero :: "number \<Rightarrow> bool" where
  "is_zero a = (a = Fin 0 \<or> a = NegZero)"

definition isFinite :: "number \<Rightarrow> bool" where
  \<comment> \<open>\<open>Number.isFinite\<close>\<close>
  "isFinite a = (\<not> is_nan a \<and> \<not> is_inf a)"

definition sign :: "number \<Rightarrow> bool" where
  \<comment> \<open>the sign bit: \<open>True\<close> for a negative value\<close>
  "sign a = (case a of NaN \<Rightarrow> False | PosInf \<Rightarrow> False | NegInf \<Rightarrow> True
                     | NegZero \<Rightarrow> True | Fin r \<Rightarrow> r < 0)"

definition val :: "number \<Rightarrow> real" where
  \<comment> \<open>the real value of a finite number (0 for the others, never used for them)\<close>
  "val a = (case a of Fin r \<Rightarrow> r | _ \<Rightarrow> 0)"

definition signed_zero :: "bool \<Rightarrow> number" where
  "signed_zero s = (if s then NegZero else Fin 0)"

definition signed_inf :: "bool \<Rightarrow> number" where
  "signed_inf s = (if s then NegInf else PosInf)"

definition round64 :: "bool \<Rightarrow> real \<Rightarrow> number" where
  \<comment> \<open>the double that an operation returns for the exact result \<open>r\<close>: the nearest one, an
      infinity on overflow, and a zero of the sign of \<open>r\<close> on underflow; \<open>s\<close> is the sign
      of the zero when \<open>r\<close> is 0\<close>
  "round64 s r =
     (let q = nearest r
      in if p2 1024 \<le> \<bar>q\<bar> then signed_inf (r < 0)
         else if q = 0 then signed_zero (if r = 0 then s else r < 0)
         else Fin q)"

definition num_neg :: "number \<Rightarrow> number" where
  \<comment> \<open>\<open>- a\<close>, which only flips the sign\<close>
  "num_neg a = (case a of NaN \<Rightarrow> NaN | PosInf \<Rightarrow> NegInf | NegInf \<Rightarrow> PosInf
                        | NegZero \<Rightarrow> Fin 0 | Fin r \<Rightarrow> (if r = 0 then NegZero else Fin (- r)))"

definition num_mul :: "number \<Rightarrow> number \<Rightarrow> number" where
  \<comment> \<open>\<open>a * b\<close>\<close>
  "num_mul a b =
     (if is_nan a \<or> is_nan b \<or> (is_zero a \<and> is_inf b) \<or> (is_inf a \<and> is_zero b) then NaN
      else if is_inf a \<or> is_inf b then signed_inf (sign a \<noteq> sign b)
      else round64 (sign a \<noteq> sign b) (val a * val b))"

definition num_div :: "number \<Rightarrow> number \<Rightarrow> number" where
  \<comment> \<open>\<open>a / b\<close>: a zero divisor gives an infinity, or \<open>NaN\<close> for \<open>0 / 0\<close>\<close>
  "num_div a b =
     (if is_nan a \<or> is_nan b \<or> (is_zero a \<and> is_zero b) \<or> (is_inf a \<and> is_inf b) then NaN
      else if is_inf a \<or> is_zero b then signed_inf (sign a \<noteq> sign b)
      else if is_inf b then signed_zero (sign a \<noteq> sign b)
      else round64 (sign a \<noteq> sign b) (val a / val b))"

definition num_add :: "number \<Rightarrow> number \<Rightarrow> number" where
  \<comment> \<open>\<open>a + b\<close>: a zero sum is negative only when both summands are the negative zero\<close>
  "num_add a b =
     (if is_nan a \<or> is_nan b \<or> (is_inf a \<and> is_inf b \<and> sign a \<noteq> sign b) then NaN
      else if is_inf a then a
      else if is_inf b then b
      else round64 (a = NegZero \<and> b = NegZero) (val a + val b))"

definition num_sub :: "number \<Rightarrow> number \<Rightarrow> number" where
  \<comment> \<open>\<open>a - b\<close>\<close>
  "num_sub a b = num_add a (num_neg b)"

definition num_eq :: "number \<Rightarrow> number \<Rightarrow> bool" where
  \<comment> \<open>\<open>a === b\<close> on numbers: \<open>NaN\<close> equals nothing, the two zeros are equal\<close>
  "num_eq a b = (\<not> is_nan a \<and> \<not> is_nan b \<and> (a = b \<or> (is_zero a \<and> is_zero b)))"

definition num_lt :: "number \<Rightarrow> number \<Rightarrow> bool" where
  \<comment> \<open>\<open>a < b\<close>\<close>
  "num_lt a b =
     (\<not> is_nan a \<and> \<not> is_nan b \<and>
      (if is_inf a then a = NegInf \<and> b \<noteq> NegInf
       else if is_inf b then b = PosInf
       else val a < val b))"

section \<open>The data of \<open>getDelta\<close>\<close>

text \<open>
  \<open>DOMRect\<close>: the four fields of the bounding rectangle that the code reads. The field
  \<open>top\<close> is written \<open>top_px\<close>, the plain name being the top element of a lattice.
\<close>

record DOMRect =
  left :: number
  top_px :: number
  width :: number
  height :: number

text \<open>
  The object \<open>{x, y}\<close> that \<open>parseTransformOrigin\<close> returns. \<open>IDelta\<close> has the fields
  \<open>x\<close> and \<open>y\<close> too and is written as an extension of it.
\<close>

record Point =
  x :: number
  y :: number

record IDelta = Point +
  scaleX :: number
  scaleY :: number
  inverseScaleX :: number
  inverseScaleY :: number

datatype lifecycle = Constructed | Attached | Hidden | Shown | Detached

text \<open>
  Modelled from the spec: the class \<open>IllusoryElement\<close>, of \<open>../IllusoryElement\<close>, is not
  among the sources. The record has the two fields that the code of \<open>getDelta\<close> reads,
  \<open>rect\<close> and \<open>naturalToCloneScale\<close>, and of the data model of the specification the
  reference to the natural element, the live style of the clone, the lifecycle state and
  the visibility of the natural element.
\<close>

record IllusoryElement =
  natural :: nat
  cloneStyle :: "string \<Rightarrow> string"
  rect :: DOMRect
  naturalToCloneScale :: number
  state :: lifecycle
  naturalVisible :: bool

definition getStyle :: "IllusoryElement \<Rightarrow> string \<Rightarrow> string" where
  \<comment> \<open>Modelled from the spec: \<open>IllusoryElement.getStyle\<close> is not among the sources. It reads
      the live style of the clone, and gives the empty value on a detached snapshot.\<close>
  "getStyle el property = (if state el = Detached then [] else cloneStyle el property)"

section \<open>\<open>getDelta\<close>\<close>

definition DELTA_PASS_THROUGH_HANDLER :: "IDelta \<Rightarrow> string \<Rightarrow> string \<Rightarrow> string" where
  "DELTA_PASS_THROUGH_HANDLER = (\<lambda>_ _ thisStyle. thisStyle)"

text \<open>
  \<open>parseTransformOrigin\<close>, of \<open>../parsers/parseTransformOrigin\<close>, is not among the sources:
  it is the first argument.
\<close>

definition getDelta :: "(string \<Rightarrow> Point) \<Rightarrow> IllusoryElement \<Rightarrow> IllusoryElement \<Rightarrow> IDelta" where
  "getDelta parseTransformOrigin start end' =
    (let origin = parseTransformOrigin (getStyle start ''transformOrigin'');
         naturalToCloneScale' = naturalToCloneScale start;

         scaleX' = num_div (num_mul naturalToCloneScale' (width (rect end'))) (width (rect start));
         scaleY' = num_div (num_mul naturalToCloneScale' (height (rect end'))) (height (rect start));

         inverseScaleX' = num_div (Fin 1) scaleX';
         inverseScaleY' = num_div (Fin 1) scaleY';

         originDisplacementX =
           num_mul (num_mul naturalToCloneScale' (num_div (x origin) (width (rect start))))
                   (num_mul (width (rect end')) (num_sub (Fin 1) inverseScaleX'));
         originDisplacementY =
           num_mul (num_mul naturalToCloneScale' (num_div (y origin) (height (rect start))))
                   (num_mul (height (rect end')) (num_sub (Fin 1) inverseScaleY'));

         x' = num_add (num_sub (left (rect end')) (left (rect start))) originDisplacementX;
         y' = num_add (num_sub (top_px (rect end')) (top_px (rect start))) originDisplacementY
     in \<lparr> x = x', y = y', scaleX = scaleX', scaleY = scaleY',
          inverseScaleX = inverseScaleX', inverseScaleY = inverseScaleY' \<rparr>)"

text \<open>
  The algorithm as the specification words it, for comparison with the code: the five
  steps of the delta calculator, with its policy for degenerate geometry (a source or
  target rect of width 0 resolves the horizontal scale and its inverse to 1, a height of
  0 the vertical ones).
\<close>

definition computeDelta :: "(string \<Rightarrow> Point) \<Rightarrow> IllusoryElement \<Rightarrow> IllusoryElement \<Rightarrow> IDelta" where
  "computeDelta TransformOriginParser start end' =
    (let degenerateX = (is_zero (width (rect start)) \<or> is_zero (width (rect end')));
         degenerateY = (is_zero (height (rect start)) \<or> is_zero (height (rect end')));
         sX = (if degenerateX then Fin 1
               else num_div (num_mul (naturalToCloneScale start) (width (rect end')))
                            (width (rect start)));
         sY = (if degenerateY then Fin 1
               else num_div (num_mul (naturalToCloneScale start) (height (rect end')))
                            (height (rect start)));
         iX = (if degenerateX then Fin 1 else num_div (Fin 1) sX);
         iY = (if degenerateY then Fin 1 else num_div (Fin 1) sY);
         origin = TransformOriginParser (getStyle start ''transformOrigin'');
         dX = num_mul (num_mul (naturalToCloneScale start)
                               (num_div (x origin) (width (rect start))))
                      (num_mul (width (rect end')) (num_sub (Fin 1) iX));
         dY = num_mul (num_mul (naturalToCloneScale start)
                               (num_div (y origin) (height (rect start))))
                      (num_mul (height (rect end')) (num_sub (Fin 1) iY))
     in \<lparr> x = num_add (num_sub (left (rect end')) (left (rect start))) dX,
          y = num_add (num_sub (top_px (rect end')) (top_px (rect start))) dY,
          scaleX = sX, scaleY = sY, inverseScaleX = iX, inverseScaleY = iY \<rparr>)"

subsection \<open>Predicates on the inputs\<close>

definition positive :: "number \<Rightarrow> bool" where
  \<comment> \<open>\<open>0 < a\<close>\<close>
  "positive a = num_lt (Fin 0) a"

definition between :: "int \<Rightarrow> int \<Rightarrow> number \<Rightarrow> bool" where
  \<comment> \<open>a finite number of magnitude from \<open>2^lo\<close> to \<open>2^hi\<close>\<close>
  "between lo hi a = (isFinite a \<and> p2 lo \<le> \<bar>val a\<bar> \<and> \<bar>val a\<bar> \<le> p2 hi)"

definition at_most :: "int \<Rightarrow> number \<Rightarrow> bool" where
  \<comment> \<open>a finite number of magnitude up to \<open>2^hi\<close>\<close>
  "at_most hi a = (isFinite a \<and> \<bar>val a\<bar> \<le> p2 hi)"

definition finite_rect :: "DOMRect \<Rightarrow> bool" where
  "finite_rect r = (isFinite (left r) \<and> isFinite (top_px r) \<and> isFinite (width r) \<and> isFinite (height r))"

definition nondegenerate :: "DOMRect \<Rightarrow> bool" where
  \<comment> \<open>a rect of finite coordinates with strictly positive width and height\<close>
  "nondegenerate r = (finite_rect r \<and> positive (width r) \<and> positive (height r))"

definition ordinary_rect :: "DOMRect \<Rightarrow> bool" where
  \<comment> \<open>a rect with strictly positive width and height from \<open>2^-100\<close> to \<open>2^100\<close>, whose
      left and top have a magnitude up to \<open>2^100\<close>\<close>
  "ordinary_rect r = (at_most 100 (left r) \<and> at_most 100 (top_px r)
      \<and> between (- 100) 100 (width r) \<and> positive (width r)
      \<and> between (- 100) 100 (height r) \<and> positive (height r))"

definition ordinary_point :: "Point \<Rightarrow> bool" where
  "ordinary_point p = (at_most 100 (x p) \<and> at_most 100 (y p))"

definition finite_delta :: "IDelta \<Rightarrow> bool" where
  "finite_delta d = (isFinite (x d) \<and> isFinite (y d) \<and> isFinite (scaleX d) \<and> isFinite (scaleY d)
                     \<and> isFinite (inverseScaleX d) \<and> isFinite (inverseScaleY d))"

definition near_one :: "number \<Rightarrow> bool" where
  \<comment> \<open>equal to 1 within \<open>Number.EPSILON\<close>, which is \<open>2^-52\<close>\<close>
  "near_one a = (isFinite a \<and> \<bar>val a - 1\<bar> \<le> p2 (- 52))"

subsection \<open>What a delta does to a box\<close>

text \<open>
  The transform \<open>translate(x, y) scale(scaleX, scaleY)\<close> with a transform-origin, as a map
  of the plane: a point \<open>p\<close> of the box, in the box's own coordinates, is scaled about
  the origin and translated. \<open>on_screen\<close> places the result in the viewport, the box
  being anchored at the left and top of the start rect.
\<close>

definition transformed :: "IDelta \<Rightarrow> Point \<Rightarrow> real \<times> real \<Rightarrow> real \<times> real" where
  "transformed d origin p =
     (val (x d) + val (x origin) + val (scaleX d) * (fst p - val (x origin)),
      val (y d) + val (y origin) + val (scaleY d) * (snd p - val (y origin)))"

definition on_screen :: "DOMRect \<Rightarrow> real \<times> real \<Rightarrow> real \<times> real" where
  "on_screen r p = (val (left r) + fst p, val (top_px r) + snd p)"

definition top_left :: "DOMRect \<Rightarrow> real \<times> real" where
  "top_left r = (val (left r), val (top_px r))"

definition bottom_right :: "DOMRect \<Rightarrow> real \<times> real" where
  "bottom_right r = (val (left r) + val (width r), val (top_px r) + val (height r))"

text \<open>
  How far a corner of the transformed box may lie from the corner of the end rect, on
  one axis: \<open>2^-47\<close> times the sizes involved, which are the distance between the two
  rects, the origin (once, and once scaled) and the extent of the end rect. \<open>2^-47\<close> is
  64 times the largest relative error of one rounding.
\<close>

definition slack :: "number \<Rightarrow> number \<Rightarrow> number \<Rightarrow> number \<Rightarrow> number \<Rightarrow> real" where
  "slack sl sw el ew og =
     p2 (- 47) * (1 + \<bar>val el - val sl\<bar> + \<bar>val og\<bar> * (1 + val ew / val sw) + val ew)"

definition tolerance :: "DOMRect \<Rightarrow> DOMRect \<Rightarrow> Point \<Rightarrow> real \<times> real" where
  "tolerance s e origin =
     (slack (left s) (width s) (left e) (width e) (x origin),
      slack (top_px s) (height s) (top_px e) (height e) (y origin))"

definition close_to :: "real \<times> real \<Rightarrow> real \<times> real \<Rightarrow> real \<times> real \<Rightarrow> bool" where
  "close_to tol p q = (\<bar>fst p - fst q\<bar> \<le> fst tol \<and> \<bar>snd p - snd q\<bar> \<le> snd tol)"

section \<open>\<open>getDelta\<close> on a store\<close>

text \<open>
  The same function with the two snapshots as references into a store of objects, so
  that what a call does to them is part of its result. The body declares constants
  only; its one call on a snapshot is \<open>getStyle\<close>.
\<close>

type_synonym ref = nat
type_synonym store = "ref \<Rightarrow> IllusoryElement"

definition getStyle_st :: "ref \<Rightarrow> string \<Rightarrow> store \<Rightarrow> string \<times> store" where
  \<comment> \<open>Modelled from the spec: \<open>IllusoryElement.getStyle\<close> is not among the sources. It reads
      the style and writes nothing.\<close>
  "getStyle_st r property h = (getStyle (h r) property, h)"

definition getDelta_st :: "(string \<Rightarrow> Point) \<Rightarrow> ref \<Rightarrow> ref \<Rightarrow> store \<Rightarrow> IDelta \<times> store" where
  "getDelta_st parseTransformOrigin start end' h =
    (let (style, h1) = getStyle_st start ''transformOrigin'' h;
         origin = parseTransformOrigin style;
         naturalToCloneScale' = naturalToCloneScale (h1 start);

         scaleX' = num_div (num_mul naturalToCloneScale' (width (rect (h1 end'))))
                           (width (rect (h1 start)));
         scaleY' = num_div (num_mul naturalToCloneScale' (height (rect (h1 end'))))
                           (height (rect (h1 start)));

         inverseScaleX' = num_div (Fin 1) scaleX';
         inverseScaleY' = num_div (Fin 1) scaleY';

         originDisplacementX =
           num_mul (num_mul naturalToCloneScale' (num_div (x origin) (width (rect (h1 start)))))
                   (num_mul (width (rect (h1 end'))) (num_sub (Fin 1) inverseScaleX'));
         originDisplacementY =
           num_mul (num_mul naturalToCloneScale' (num_div (y origin) (height (rect (h1 start)))))
                   (num_mul (height (rect (h1 end'))) (num_sub (Fin 1) inverseScaleY'));

         x' = num_add (num_sub (left (rect (h1 end'))) (left (rect (h1 start))))
                      originDisplacementX;
         y' = num_add (num_sub (top_px (rect (h1 end'))) (top_px (rect (h1 start))))
                      originDisplacementY
     in (\<lparr> x = x', y = y', scaleX = scaleX', scaleY = scaleY',
           inverseScaleX = inverseScaleX', inverseScaleY = inverseScaleY' \<rparr>, h1))"

definition same_observables :: "IllusoryElement \<times> IllusoryElement \<Rightarrow> IllusoryElement \<times> IllusoryElement \<Rightarrow> bool" where
  \<comment> \<open>two pairs (start, end) agree on what \<open>getDelta\<close> reads: both rects, the
      transform-origin style of start and the \<open>naturalToCloneScale\<close> of start\<close>
  "same_observables p q =
     (rect (fst p) = rect (fst q) \<and> rect (snd p) = rect (snd q)
      \<and> getStyle (fst p) ''transformOrigin'' = getStyle (fst q) ''transformOrigin''
      \<and> naturalToCloneScale (fst p) = naturalToCloneScale (fst q))"

section \<open>The default options\<close>

text \<open>
  \<open>DEFAULT_OPTIONS\<close> is an object literal. A JavaScript object is the list of its own
  properties, so that a key which the literal does not set is absent from it; the global
  \<open>document\<close> is a value of its own.
\<close>

datatype jsvalue =
    Bool bool
  | Num number
  | Str string
  | Document
  | Array "jsvalue list"
  | Object "(string \<times> jsvalue) list"

fun get :: "jsvalue \<Rightarrow> string \<Rightarrow> jsvalue option" where
  \<comment> \<open>\<open>obj[key]\<close>, \<open>None\<close> for \<open>undefined\<close>\<close>
  "get (Object kvs) k = map_of kvs k"
| "get _ k = None"

fun keys :: "jsvalue \<Rightarrow> string list" where
  \<comment> \<open>\<open>Object.keys(obj)\<close>\<close>
  "keys (Object kvs) = map fst kvs"
| "keys _ = []"

definition DEFAULT_OPTIONS :: jsvalue where
  "DEFAULT_OPTIONS = Object
     [(''element'', Object
        [(''includeChildren'', Bool True),
         (''ignoreTransparency'', Array [Str ''img'']),
         (''naturalToCloneScale'', Num (Fin 1))]),
      (''zIndex'', Num (Fin 1)),
      (''compositeOnly'', Bool False),
      (''duration'', Str ''300ms''),
      (''easing'', Str ''ease''),
      (''relativeTo'', Array [Document])]"

text \<open>\<open>obj.k1.k2\<close>: a path of property reads.\<close>

fun get_in :: "jsvalue \<Rightarrow> string list \<Rightarrow> jsvalue option" where
  "get_in v [] = Some v"
| "get_in v (k # ks) = (case get v k of None \<Rightarrow> None | Some w \<Rightarrow> get_in w ks)"

section \<open>The transition, from the specification\<close>

text \<open>
  The function \<open>illusory\<close> and the class \<open>IllusoryElement\<close> are not among the sources.
  What follows is modelled from the specification: the operations of a snapshot that the
  transition uses, and the transition as the sequence of its phases. A hook is a function
  of the two snapshots, which it may change, and its future resolves or rejects; the
  completion of the animation is the flag \<open>canceled\<close>, true when the timeout guard fired.
  The two arguments are snapshots already, which Normalize reuses as they are.
\<close>

definition attach :: "IllusoryElement \<Rightarrow> IllusoryElement" where
  \<comment> \<open>Modelled from the spec: \<open>IllusoryElement.attach\<close> is not among the sources. The clone is
      inserted into the container; \<open>Detached\<close> is terminal.\<close>
  "attach el = (if state el = Detached then el else el \<lparr> state := Attached \<rparr>)"

definition detach :: "IllusoryElement \<Rightarrow> IllusoryElement" where
  \<comment> \<open>Modelled from the spec: \<open>IllusoryElement.detach\<close> is not among the sources. It removes the
      clone; a second call changes nothing.\<close>
  "detach el = el \<lparr> state := Detached \<rparr>"

definition hideNatural :: "IllusoryElement \<Rightarrow> IllusoryElement" where
  \<comment> \<open>Modelled from the spec: \<open>IllusoryElement.hideNatural\<close> is not among the sources.\<close>
  "hideNatural el = el \<lparr> naturalVisible := False \<rparr>"

definition showNatural :: "IllusoryElement \<Rightarrow> IllusoryElement" where
  \<comment> \<open>Modelled from the spec: \<open>IllusoryElement.showNatural\<close> is not among the sources.\<close>
  "showNatural el = el \<lparr> naturalVisible := True \<rparr>"

definition setStyle :: "string \<Rightarrow> string \<Rightarrow> IllusoryElement \<Rightarrow> IllusoryElement" where
  \<comment> \<open>Modelled from the spec: \<open>IllusoryElement.setStyle\<close> is not among the sources. It writes the
      style of the clone and does nothing on a detached snapshot.\<close>
  "setStyle property v el =
     (if state el = Detached then el else el \<lparr> cloneStyle := (cloneStyle el)(property := v) \<rparr>)"

datatype outcome = Resolved | Rejected string

datatype phase = Normalize | Attach | BeforeAttachHook | Flush | BeforeAnimateHook | ApplyDelta
  | AwaitCompletion | BeforeDetachHook | Cleanup | Done

type_synonym snapshots = "IllusoryElement \<times> IllusoryElement"

type_synonym hook = "snapshots \<Rightarrow> outcome \<times> snapshots"

record hooks =
  beforeAttach :: "hook option"
  beforeAnimate :: "hook option"
  beforeDetach :: "(bool \<Rightarrow> hook) option"

record transition =
  from_el :: IllusoryElement
  to_el :: IllusoryElement
  trace :: "(phase \<times> outcome) list"
  failure :: "string option"

definition is_hook :: "phase \<Rightarrow> bool" where
  "is_hook p = (p = BeforeAttachHook \<or> p = BeforeAnimateHook \<or> p = BeforeDetachHook)"

definition plain :: "(snapshots \<Rightarrow> snapshots) \<Rightarrow> hook" where
  "plain g s = (Resolved, g s)"

definition optional :: "hook option \<Rightarrow> hook" where
  "optional h = (case h of None \<Rightarrow> plain id | Some f \<Rightarrow> f)"

definition run_phase :: "transition \<Rightarrow> phase \<times> hook \<Rightarrow> transition" where
  \<comment> \<open>Modelled from the spec: one phase of \<open>illusory\<close>, which is not among the sources. After a
      rejection the phases up to Cleanup are not run.\<close>
  "run_phase t step =
     (case failure t of
        Some e \<Rightarrow> t
      | None \<Rightarrow>
          (case snd step (from_el t, to_el t) of
             (r, (a, b)) \<Rightarrow>
               t \<lparr> from_el := a, to_el := b, trace := trace t @ [(fst step, r)],
                   failure := (case r of Resolved \<Rightarrow> None | Rejected e \<Rightarrow> Some e) \<rparr>))"

definition steps :: "(string \<Rightarrow> Point) \<Rightarrow> (IDelta \<Rightarrow> string) \<Rightarrow> hooks \<Rightarrow> bool \<Rightarrow> (phase \<times> hook) list" where
  \<comment> \<open>Modelled from the spec: the phases of \<open>illusory\<close> before Cleanup, in the order of the state
      machine of the specification.\<close>
  "steps parse render options canceled =
     [(Normalize, plain id),
      (Attach, plain (\<lambda>(a, b). (hideNatural (attach a), hideNatural (attach b)))),
      (BeforeAttachHook, optional (beforeAttach options)),
      (Flush, plain id),
      (BeforeAnimateHook, optional (beforeAnimate options)),
      (ApplyDelta, plain (\<lambda>(a, b). (setStyle ''transform'' (render (getDelta parse a b)) a, b))),
      (AwaitCompletion, plain id),
      (BeforeDetachHook, optional (map_option (\<lambda>f. f canceled) (beforeDetach options)))]"

definition cleanup :: "transition \<Rightarrow> transition" where
  \<comment> \<open>Modelled from the spec: the Cleanup phase of \<open>illusory\<close>: it shows both natural elements and
      detaches both clones, whatever happened before.\<close>
  "cleanup t = t \<lparr> from_el := detach (showNatural (from_el t)),
                   to_el := detach (showNatural (to_el t)),
                   trace := trace t @ [(Cleanup, Resolved)] \<rparr>"

definition settle :: "transition \<Rightarrow> outcome \<times> transition" where
  \<comment> \<open>Modelled from the spec: the future that \<open>illusory\<close> returns settles once Cleanup is done, and
      rejects with the reason of the hook that rejected.\<close>
  "settle t =
     (let r = (case failure t of None \<Rightarrow> Resolved | Some e \<Rightarrow> Rejected e)
      in (r, t \<lparr> trace := trace t @ [(Done, r)] \<rparr>))"

definition illusory ::
  "(string \<Rightarrow> Point) \<Rightarrow> (IDelta \<Rightarrow> string) \<Rightarrow> hooks \<Rightarrow> bool
     \<Rightarrow> IllusoryElement \<Rightarrow> IllusoryElement \<Rightarrow> outcome \<times> transition" where
  \<comment> \<open>Modelled from the spec: \<open>illusory\<close> is not among the sources.\<close>
  "illusory parse render options canceled from' to' =
     settle (cleanup (foldl run_phase
        \<lparr> from_el = from', to_el = to', trace = [], failure = None \<rparr>
        (steps parse render options canceled)))"

text \<open>The rejections of hooks that a trace records, in order.\<close>

fun hook_rejections :: "(phase \<times> outcome) list \<Rightarrow> (phase \<times> string) list" where
  "hook_rejections [] = []"
| "hook_rejections ((p, Rejected e) # l) =
     (if is_hook p then (p, e) # hook_rejections l else hook_rejections l)"
| "hook_rejections ((p, Resolved) # l) = hook_rejections l"

text \<open>Two notions for the proofs: a step that is a hook or cannot reject, and a run whose
  recorded failure is the one rejection of its trace.\<close>

definition well_behaved :: "phase \<times> hook \<Rightarrow> bool" where
  "well_behaved step = (fst step \<noteq> Cleanup \<and> fst step \<noteq> Done
      \<and> (is_hook (fst step) \<or> (\<forall>s. fst (snd step s) = Resolved)))"

definition consistent :: "transition \<Rightarrow> bool" where
  "consistent t = (Cleanup \<notin> fst ` set (trace t) \<and> Done \<notin> fst ` set (trace t)
      \<and> failure t = (case hook_rejections (trace t) of [] \<Rightarrow> None | (p, e) # _ \<Rightarrow> Some e)
      \<and> length (hook_rejections (trace t)) \<le> 1)"

text \<open>The hooks that the options of a call configure, in the order of their phases.\<close>

definition configured :: "hooks \<Rightarrow> bool \<Rightarrow> hook list" where
  "configured options canceled =
     (case beforeAttach options of None \<Rightarrow> [] | Some h \<Rightarrow> [h])
     @ (case beforeAnimate options of None \<Rightarrow> [] | Some h \<Rightarrow> [h])
     @ (case beforeDetach options of None \<Rightarrow> [] | Some f \<Rightarrow> [f canceled])"

definition hook_outcome ::
  "(string \<Rightarrow> Point) \<Rightarrow> (IDelta \<Rightarrow> string) \<Rightarrow> hooks \<Rightarrow> bool
     \<Rightarrow> IllusoryElement \<Rightarrow> IllusoryElement \<Rightarrow> outcome" where
  \<comment> \<open>Modelled from the spec: what the futures of the hooks of the options decide, without
      the phases. The hooks are called in order, each on the snapshots as the hook before
      it left them, and the first rejection is the outcome; with no rejection the outcome
      is \<open>Resolved\<close>.\<close>
  "hook_outcome parse render options canceled from' to' =
     (case optional (beforeAttach options) (hideNatural (attach from'), hideNatural (attach to')) of
        (Rejected e, _) \<Rightarrow> Rejected e
      | (Resolved, s) \<Rightarrow>
          (case optional (beforeAnimate options) s of
             (Rejected e, _) \<Rightarrow> Rejected e
           | (Resolved, (a, b)) \<Rightarrow>
               fst (optional (map_option (\<lambda>f. f canceled) (beforeDetach options))
                      (setStyle ''transform'' (render (getDelta parse a b)) a, b))))"

section \<open>Concrete inputs\<close>

text \<open>
  The snapshots of the specification's concrete scenario, and variations of them at
  which the degenerate cases are evaluated. \<open>origin_50_25\<close> stands for a parser that
  resolves the transform-origin to the point (50, 25).
\<close>

definition origin_50_25 :: "string \<Rightarrow> Point" where
  "origin_50_25 = (\<lambda>_. \<lparr> x = Fin 50, y = Fin 25 \<rparr>)"

definition snapshot :: "DOMRect \<Rightarrow> number \<Rightarrow> IllusoryElement" where
  "snapshot r n = \<lparr> natural = 0, cloneStyle = (\<lambda>_. []), rect = r,
     naturalToCloneScale = n, state = Attached, naturalVisible = False \<rparr>"

definition example_start :: IllusoryElement where
  "example_start =
     snapshot \<lparr> left = Fin 0, top_px = Fin 0, width = Fin 100, height = Fin 50 \<rparr> (Fin 1)"

definition example_end :: IllusoryElement where
  "example_end =
     snapshot \<lparr> left = Fin 200, top_px = Fin 100, width = Fin 50, height = Fin 25 \<rparr> (Fin 1)"

definition flat_start :: IllusoryElement where
  \<comment> \<open>a start element of width 0\<close>
  "flat_start =
     snapshot \<lparr> left = Fin 0, top_px = Fin 0, width = Fin 0, height = Fin 50 \<rparr> (Fin 1)"

definition flat_box :: IllusoryElement where
  \<comment> \<open>a start element of width 0 and height 0\<close>
  "flat_box =
     snapshot \<lparr> left = Fin 0, top_px = Fin 0, width = Fin 0, height = Fin 0 \<rparr> (Fin 1)"

definition unscaled_start :: IllusoryElement where
  \<comment> \<open>the start element of the scenario with \<open>naturalToCloneScale: 0\<close>\<close>
  "unscaled_start = example_start \<lparr> naturalToCloneScale := Fin 0 \<rparr>"

definition thirds_start :: IllusoryElement where
  \<comment> \<open>a box of 3 by 3 at the corner of the viewport\<close>
  "thirds_start =
     snapshot \<lparr> left = Fin 0, top_px = Fin 0, width = Fin 3, height = Fin 3 \<rparr> (Fin 1)"

definition thirds_end :: IllusoryElement where
  \<comment> \<open>a box of 1 by 1 at the corner of the viewport\<close>
  "thirds_end =
     snapshot \<lparr> left = Fin 0, top_px = Fin 0, width = Fin 1, height = Fin 1 \<rparr> (Fin 1)"

definition origin_1_1 :: "string \<Rightarrow> Point" where
  "origin_1_1 = (\<lambda>_. \<lparr> x = Fin 1, y = Fin 1 \<rparr>)"

definition narrow_start :: IllusoryElement where
  \<comment> \<open>a box of \<open>2^-600\<close> by \<open>2^-600\<close>\<close>
  "narrow_start =
     snapshot \<lparr> left = Fin 0, top_px = Fin 0, width = Fin (1 / 2 ^ 600), height = Fin (1 / 2 ^ 600) \<rparr> (Fin 1)"

definition wide_end :: IllusoryElement where
  \<comment> \<open>a box of \<open>2^600\<close> by \<open>2^600\<close>\<close>
  "wide_end =
     snapshot \<lparr> left = Fin 0, top_px = Fin 0, width = Fin (2 ^ 600), height = Fin (2 ^ 600) \<rparr> (Fin 1)"

text \<open>Two stores that agree on what \<open>getDelta\<close> reads and differ elsewhere, and options
  whose \<open>beforeAnimate\<close> hook rejects.\<close>

definition store_a :: store where
  "store_a = (\<lambda>r. if r = 0 then example_start else example_end)"

definition store_b :: store where
  "store_b = (\<lambda>r. if r = 5 then example_start \<lparr> natural := 7, naturalVisible := True,
                                   cloneStyle := (\<lambda>p. if p = ''transformOrigin'' then [] else ''1px'') \<rparr>
                  else example_end \<lparr> naturalToCloneScale := Fin 3, state := Detached \<rparr>)"

definition rejecting :: hooks where
  "rejecting = \<lparr> beforeAttach = None,
                 beforeAnimate = Some (\<lambda>(a, b). (Rejected ''boom'', (showNatural a, b))),
                 beforeDetach = Some (\<lambda>canceled s. (Resolved, s)) \<rparr>"

section \<open>Rounding\<close>

subsection \<open>Powers of two and the exponent\<close>

lemma p2_less_iff: "p2 a < p2 b \<longleftrightarrow> a < b"
proof
  assume l: "p2 a < p2 b"
  show "a < b"
  proof (rule ccontr)
    assume "\<not> a < b"
    then have "b \<le> a" by simp
    then have "(2::real) powi b \<le> 2 powi a" by (rule power_int_increasing) simp
    with l show False by (simp add: p2_def)
  qed
next
  assume "a < b"
  then have "(2::real) powi a < 2 powi b" by (rule power_int_strict_increasing) simp
  then show "p2 a < p2 b" by (simp add: p2_def)
qed

lemma p2_le_iff: "p2 a \<le> p2 b \<longleftrightarrow> a \<le> b"
  using p2_less_iff [of b a] by (simp add: not_less [symmetric])

lemma p2_pos: "0 < p2 a"
  by (simp add: p2_def)

lemma p2_add: "p2 (a + b) = p2 a * p2 b"
  by (simp add: p2_def power_int_add)

lemma p2_diff: "p2 (a - b) = p2 a / p2 b"
  by (simp add: p2_def power_int_diff)

lemma p2_0: "p2 0 = 1"
  by (simp add: p2_def)

lemma p2_nat: "p2 (int n) = 2 ^ n"
  by (simp add: p2_def)

lemma p2_neg: "p2 (- a) = 1 / p2 a"
  by (simp add: p2_def power_int_minus_divide)

lemma p2_1: "p2 1 = 2"
  by (simp add: p2_def)

lemma p2_suc: "p2 (a + 1) = 2 * p2 a"
  by (simp add: p2_add p2_1)

lemma p2_pred: "p2 (a - 1) = p2 a / 2"
  by (simp add: p2_diff p2_1)

lemma expo_bounds: "0 < r \<Longrightarrow> p2 (expo r) \<le> r \<and> r < p2 (expo r + 1)"
proof (induction r rule: expo.induct)
  case (1 r)
  show ?case
  proof (cases "2 \<le> r")
    case True
    then have e: "expo r = expo (r / 2) + 1" using 1(3) by (subst expo.simps) simp
    have "p2 (expo (r / 2)) \<le> r / 2 \<and> r / 2 < p2 (expo (r / 2) + 1)"
      using 1(1) 1(3) True by simp
    then show ?thesis unfolding e p2_suc by simp
  next
    case False
    show ?thesis
    proof (cases "r < 1")
      case True
      then have e: "expo r = expo (r * 2) - 1" using 1(3) False by (subst expo.simps) simp
      have "p2 (expo (r * 2)) \<le> r * 2 \<and> r * 2 < p2 (expo (r * 2) + 1)"
        using 1(2) 1(3) False True by simp
      then show ?thesis unfolding e p2_suc p2_pred by simp
    next
      case F2: False
      then have e: "expo r = 0" using 1(3) False by (subst expo.simps) simp
      show ?thesis unfolding e p2_suc p2_0 using False F2 by simp
    qed
  qed
qed

lemma expo_unique:
  assumes "p2 e \<le> r" and "r < p2 (e + 1)"
  shows "expo r = e"
proof -
  have pos: "0 < r" using p2_pos [of e] assms(1) by linarith
  note b = expo_bounds [OF pos]
  have "p2 e < p2 (expo r + 1)" using assms(1) b by linarith
  then have 1: "e < expo r + 1" by (simp only: p2_less_iff)
  have "p2 (expo r) < p2 (e + 1)" using assms(2) b by linarith
  then have 2: "expo r < e + 1" by (simp only: p2_less_iff)
  from 1 2 show ?thesis by simp
qed

lemma p2_52: "p2 e = of_int (2 ^ 52) * p2 (e - 52)"
proof -
  have "e = 52 + (e - 52)" by simp
  then have "p2 e = p2 (52 + (e - 52))" by (rule arg_cong)
  also have "\<dots> = p2 52 * p2 (e - 52)" by (rule p2_add)
  also have "p2 52 = of_int (2 ^ 52)" using p2_nat [of 52] by simp
  finally show ?thesis .
qed

lemma p2_53: "p2 (e + 1) = of_int (2 ^ 53) * p2 (e - 52)"
proof -
  have "e + 1 = 53 + (e - 52)" by simp
  then have "p2 (e + 1) = p2 (53 + (e - 52))" by (rule arg_cong)
  also have "\<dots> = p2 53 * p2 (e - 52)" by (rule p2_add)
  also have "p2 53 = of_int (2 ^ 53)" using p2_nat [of 53] by simp
  finally show ?thesis .
qed

lemma p2_half: "p2 (e - 52) / 2 = p2 (e - 53)"
proof -
  have "e - 53 = e - 52 - 1" by simp
  then have "p2 (e - 53) = p2 (e - 52 - 1)" by (rule arg_cong)
  also have "\<dots> = p2 (e - 52) / 2" by (rule p2_pred)
  finally show ?thesis by simp
qed

subsection \<open>The nearest integer\<close>

lemma rhe_cases: "round_half_even m = \<lfloor>m\<rfloor> \<or> round_half_even m = \<lfloor>m\<rfloor> + 1"
  by (simp add: round_half_even_def Let_def)

lemma rhe_error: "\<bar>of_int (round_half_even m) - m\<bar> \<le> 1 / 2"
proof -
  have "of_int \<lfloor>m\<rfloor> \<le> m" "m < of_int \<lfloor>m\<rfloor> + 1" by linarith+
  then show ?thesis
    by (auto simp add: round_half_even_def Let_def abs_le_iff)
qed

lemma rhe_of_int: "round_half_even (of_int j) = j"
  by (simp add: round_half_even_def)

lemma rhe_ge: "of_int j \<le> m \<Longrightarrow> j \<le> round_half_even m"
proof -
  assume "of_int j \<le> m"
  then have "j \<le> \<lfloor>m\<rfloor>" by (simp add: le_floor_iff)
  then show ?thesis using rhe_cases [of m] by auto
qed

lemma rhe_le: "m \<le> of_int j \<Longrightarrow> round_half_even m \<le> j"
proof (cases "m = of_int j")
  case True
  then show ?thesis by (simp add: rhe_of_int)
next
  case False
  assume "m \<le> of_int j"
  with False have "m < of_int j" by simp
  then have "\<lfloor>m\<rfloor> < j" by (simp add: floor_less_iff)
  then show ?thesis using rhe_cases [of m] by auto
qed

subsection \<open>The nearest double\<close>

lemma ulp_pos: "0 < ulp r"
  by (simp add: ulp_def p2_pos)

lemma rne_error: "\<bar>rne r - r\<bar> \<le> ulp r / 2"
proof -
  have "rne r - r = (of_int (round_half_even (r / ulp r)) - r / ulp r) * ulp r"
    using ulp_pos [of r] by (simp add: rne_def field_simps)
  then have "\<bar>rne r - r\<bar> = \<bar>of_int (round_half_even (r / ulp r)) - r / ulp r\<bar> * ulp r"
    using ulp_pos [of r] by (simp add: abs_mult)
  also have "\<dots> \<le> 1 / 2 * ulp r"
    using rhe_error [of "r / ulp r"] ulp_pos [of r] by (intro mult_right_mono) simp_all
  finally show ?thesis by simp
qed

lemma rne_ge: "of_int j * ulp r \<le> r \<Longrightarrow> of_int j * ulp r \<le> rne r"
proof -
  assume "of_int j * ulp r \<le> r"
  then have "of_int j \<le> r / ulp r" using ulp_pos [of r] by (simp add: field_simps)
  then have "j \<le> round_half_even (r / ulp r)" by (rule rhe_ge)
  then have "(of_int j :: real) \<le> of_int (round_half_even (r / ulp r))" by simp
  then show ?thesis unfolding rne_def using ulp_pos [of r] by (intro mult_right_mono) simp_all
qed

lemma rne_le: "r \<le> of_int j * ulp r \<Longrightarrow> rne r \<le> of_int j * ulp r"
proof -
  assume "r \<le> of_int j * ulp r"
  then have "r / ulp r \<le> of_int j" using ulp_pos [of r] by (simp add: field_simps)
  then have "round_half_even (r / ulp r) \<le> j" by (rule rhe_le)
  then have "(of_int (round_half_even (r / ulp r)) :: real) \<le> of_int j" by simp
  then show ?thesis unfolding rne_def using ulp_pos [of r] by (intro mult_right_mono) simp_all
qed

lemma rne_normal:
  assumes "0 < r" and "- 1022 \<le> expo r"
  shows "p2 (expo r) \<le> rne r" and "rne r \<le> p2 (expo r + 1)"
    and "\<bar>rne r - r\<bar> \<le> p2 (expo r - 53)"
proof -
  have u: "ulp r = p2 (expo r - 52)"
    using assms(2) by (simp add: ulp_def max_def)
  note b = expo_bounds [OF assms(1)]
  have lo: "p2 (expo r) = of_int (2 ^ 52) * ulp r"
    unfolding u by (rule p2_52)
  have hi: "p2 (expo r + 1) = of_int (2 ^ 53) * ulp r"
    unfolding u by (rule p2_53)
  show "p2 (expo r) \<le> rne r"
    unfolding lo using b unfolding lo by (intro rne_ge) simp
  show "rne r \<le> p2 (expo r + 1)"
    unfolding hi using b unfolding hi by (intro rne_le) simp
  have "ulp r / 2 = p2 (expo r - 53)"
    unfolding u by (rule p2_half)
  then show "\<bar>rne r - r\<bar> \<le> p2 (expo r - 53)"
    using rne_error [of r] by simp
qed

lemma rne_relative:
  assumes "0 < r" and "- 1022 \<le> expo r"
  shows "\<bar>rne r - r\<bar> \<le> r * p2 (- 53)"
proof -
  have "expo r - 53 = expo r + (- 53)" by simp
  then have "p2 (expo r - 53) = p2 (expo r + (- 53))" by (rule arg_cong)
  also have "\<dots> = p2 (expo r) * p2 (- 53)" by (rule p2_add)
  also have "\<dots> \<le> r * p2 (- 53)"
    using expo_bounds [OF assms(1)] p2_pos [of "- 53"] by (intro mult_right_mono) simp_all
  finally show ?thesis using rne_normal(3) [OF assms] by simp
qed

lemma rne_subnormal:
  assumes "0 < r" and "expo r < - 1022"
  shows "0 \<le> rne r" and "rne r \<le> p2 (- 1022)" and "\<bar>rne r - r\<bar> \<le> p2 (- 1075)"
proof -
  have u: "ulp r = p2 (- 1074)"
    using assms(2) by (simp add: ulp_def max_def)
  have "r < p2 (expo r + 1)" using expo_bounds [OF assms(1)] by simp
  also have "\<dots> \<le> p2 (- 1022)" using assms(2) by (simp add: p2_le_iff)
  finally have r: "r \<le> p2 (- 1022)" by simp
  have "of_int 0 * ulp r \<le> rne r" using assms(1) by (intro rne_ge) simp
  then show "0 \<le> rne r" by simp
  have hi: "p2 (- 1022) = of_int (2 ^ 52) * ulp r"
    unfolding u using p2_52 [of "- 1022"] by simp
  show "rne r \<le> p2 (- 1022)"
    unfolding hi using r unfolding hi by (intro rne_le) simp
  have "ulp r / 2 = p2 (- 1075)"
    unfolding u using p2_half [of "- 1022"] by simp
  then show "\<bar>rne r - r\<bar> \<le> p2 (- 1075)"
    using rne_error [of r] by simp
qed

lemma rne_lower:
  assumes "p2 k \<le> r" and "- 1022 \<le> k"
  shows "p2 k \<le> rne r"
proof -
  have pos: "0 < r" using p2_pos [of k] assms(1) by linarith
  have "p2 k < p2 (expo r + 1)"
    using assms(1) expo_bounds [OF pos] by linarith
  then have "k < expo r + 1" by (simp only: p2_less_iff)
  then have k: "k \<le> expo r" by simp
  then have "p2 k \<le> p2 (expo r)" by (simp only: p2_le_iff)
  also have "\<dots> \<le> rne r" using pos k assms(2) by (intro rne_normal(1)) simp_all
  finally show ?thesis .
qed

lemma rne_upper:
  assumes "0 < r" and "r \<le> p2 k" and "- 1022 \<le> k"
  shows "rne r \<le> p2 k"
proof (cases "expo r < - 1022")
  case True
  have "rne r \<le> p2 (- 1022)" using assms(1) True by (rule rne_subnormal(2))
  also have "\<dots> \<le> p2 k" using assms(3) by (simp only: p2_le_iff)
  finally show ?thesis .
next
  case False
  then have n: "- 1022 \<le> expo r" by simp
  show ?thesis
  proof (cases "r = p2 k")
    case True
    then have e: "expo r = k" by (intro expo_unique) (simp_all add: p2_less_iff)
    have "of_int (2 ^ 52) * ulp r = r"
      using n True e p2_52 [of k] by (simp add: ulp_def max_def)
    then have "rne r \<le> of_int (2 ^ 52) * ulp r" by (intro rne_le) simp
    also have "of_int (2 ^ 52) * ulp r = p2 k"
      using n e p2_52 [of k] by (simp add: ulp_def max_def)
    finally show ?thesis .
  next
    case F: False
    with assms(2) have "r < p2 k" by simp
    then have "p2 (expo r) < p2 k" using expo_bounds [OF assms(1)] by linarith
    then have "expo r < k" by (simp only: p2_less_iff)
    then have "expo r + 1 \<le> k" by simp
    then have "p2 (expo r + 1) \<le> p2 k" by (simp only: p2_le_iff)
    with rne_normal(2) [OF assms(1) n] show ?thesis by linarith
  qed
qed

subsection \<open>Operations on numbers\<close>

lemmas num_defs = is_nan_def is_inf_def is_zero_def isFinite_def sign_def val_def
  signed_zero_def signed_inf_def

lemmas rnd64 = round64_def nearest_def rne_def ulp_def round_half_even_def expo.simps p2_def Let_def

lemma num_mul_Fin: "num_mul (Fin a) (Fin b) = round64 ((a < 0) \<noteq> (b < 0)) (a * b)"
  by (simp add: num_mul_def num_defs)

lemma num_div_Fin: "num_div (Fin a) (Fin b) =
   (if b = 0 then (if a = 0 then NaN else signed_inf (a < 0))
    else round64 ((a < 0) \<noteq> (b < 0)) (a / b))"
  by (simp add: num_div_def num_defs)

lemma num_add_Fin: "num_add (Fin a) (Fin b) = round64 False (a + b)"
  by (simp add: num_add_def num_defs)

lemma num_sub_Fin: "num_sub (Fin a) (Fin b) = round64 False (a - b)"
  by (simp add: num_sub_def num_neg_def num_add_def num_defs)

lemma rne_0: "rne 0 = 0"
  by (simp add: rne_def round_half_even_def)

lemma rne_nonneg: "0 \<le> r \<Longrightarrow> 0 \<le> rne r"
proof -
  assume "0 \<le> r"
  then have "of_int 0 * ulp r \<le> rne r" by (intro rne_ge) simp
  then show ?thesis by simp
qed

lemma nearest_0: "nearest 0 = 0"
  by (simp add: nearest_def rne_0)

lemma nearest_abs: "\<bar>nearest r\<bar> = rne \<bar>r\<bar>"
  using rne_nonneg [of r] rne_nonneg [of "- r"] by (simp add: nearest_def)

lemma nearest_sign: "0 \<le> r \<Longrightarrow> 0 \<le> nearest r" "r \<le> 0 \<Longrightarrow> nearest r \<le> 0"
  using rne_nonneg [of r] rne_nonneg [of "- r"] by (auto simp add: nearest_def rne_0)

lemma nearest_err_abs: "\<bar>nearest r - r\<bar> = \<bar>rne \<bar>r\<bar> - \<bar>r\<bar>\<bar>"
proof (cases "r < 0")
  case True
  have "\<bar>- rne (- r) - r\<bar> = \<bar>- (rne (- r) + r)\<bar>" by simp
  also have "\<dots> = \<bar>rne (- r) + r\<bar>" by (rule abs_minus)
  finally show ?thesis using True by (simp add: nearest_def)
next
  case False
  then show ?thesis by (simp add: nearest_def)
qed

lemma nearest_upper:
  assumes "\<bar>r\<bar> \<le> p2 k" and "- 1022 \<le> k"
  shows "\<bar>nearest r\<bar> \<le> p2 k"
proof (cases "r = 0")
  case True
  then show ?thesis using p2_pos [of k] by (simp add: nearest_0)
next
  case False
  then have "0 < \<bar>r\<bar>" by simp
  then have "rne \<bar>r\<bar> \<le> p2 k" using assms by (rule rne_upper)
  then show ?thesis by (simp add: nearest_abs)
qed

lemma nearest_lower:
  assumes "p2 k \<le> \<bar>r\<bar>" and "- 1022 \<le> k"
  shows "p2 k \<le> \<bar>nearest r\<bar>"
  using rne_lower [OF assms] by (simp add: nearest_abs)

lemma abs_expo_normal: "p2 (- 1022) \<le> r \<Longrightarrow> - 1022 \<le> expo r"
proof -
  assume a: "p2 (- 1022) \<le> r"
  then have pos: "0 < r" using p2_pos [of "- 1022"] by linarith
  have "p2 (- 1022) < p2 (expo r + 1)" using a expo_bounds [OF pos] by linarith
  then have "- 1022 < expo r + 1" by (simp only: p2_less_iff)
  then show ?thesis by simp
qed

lemma nearest_relative:
  assumes "p2 (- 1022) \<le> \<bar>r\<bar>"
  shows "\<bar>nearest r - r\<bar> \<le> \<bar>r\<bar> * p2 (- 53)"
proof -
  have pos: "0 < \<bar>r\<bar>" using assms p2_pos [of "- 1022"] by linarith
  show ?thesis
    unfolding nearest_err_abs using pos abs_expo_normal [OF assms] by (rule rne_relative)
qed

lemma nearest_err_exp:
  assumes "p2 (- 1022) \<le> \<bar>r\<bar>" and "\<bar>r\<bar> < p2 (k + 1)"
  shows "\<bar>nearest r - r\<bar> \<le> p2 (k - 53)"
proof -
  have pos: "0 < \<bar>r\<bar>" using assms p2_pos [of "- 1022"] by linarith
  have "p2 (expo \<bar>r\<bar>) < p2 (k + 1)" using assms(2) expo_bounds [OF pos] by linarith
  then have "expo \<bar>r\<bar> < k + 1" by (simp only: p2_less_iff)
  then have "expo \<bar>r\<bar> - 53 \<le> k - 53" by simp
  then have "p2 (expo \<bar>r\<bar> - 53) \<le> p2 (k - 53)" by (simp only: p2_le_iff)
  with rne_normal(3) [OF pos abs_expo_normal [OF assms(1)]] show ?thesis
    unfolding nearest_err_abs by linarith
qed

lemma nearest_mixed: "\<bar>nearest r - r\<bar> \<le> \<bar>r\<bar> * p2 (- 53) + p2 (- 1075)"
proof (cases "p2 (- 1022) \<le> \<bar>r\<bar>")
  case True
  then show ?thesis using nearest_relative [OF True] p2_pos [of "- 1075"] by linarith
next
  case False
  show ?thesis
  proof (cases "r = 0")
    case True
    then show ?thesis using p2_pos [of "- 1075"] by (simp add: nearest_0)
  next
    case F: False
    then have pos: "0 < \<bar>r\<bar>" by simp
    have "p2 (expo \<bar>r\<bar>) < p2 (- 1022)" using False expo_bounds [OF pos] by linarith
    then have "expo \<bar>r\<bar> < - 1022" by (simp only: p2_less_iff)
    then have "\<bar>rne \<bar>r\<bar> - \<bar>r\<bar>\<bar> \<le> p2 (- 1075)" using pos by (intro rne_subnormal(3))
    moreover have "0 \<le> \<bar>r\<bar> * p2 (- 53)" using p2_pos [of "- 53"] by simp
    ultimately show ?thesis unfolding nearest_err_abs by linarith
  qed
qed

lemma round64_finite:
  assumes "\<bar>nearest r\<bar> < p2 1024"
  shows "isFinite (round64 s r)" and "val (round64 s r) = nearest r"
  using assms by (simp_all add: round64_def Let_def num_defs)

lemma round64_bounded:
  assumes "\<bar>r\<bar> \<le> p2 k" and "- 1022 \<le> k" and "k \<le> 1023"
  shows "isFinite (round64 s r)" and "val (round64 s r) = nearest r"
proof -
  have "\<bar>nearest r\<bar> \<le> p2 k" using assms(1,2) by (rule nearest_upper)
  also have "p2 k < p2 1024" using assms(3) by (simp add: p2_less_iff)
  finally have b: "\<bar>nearest r\<bar> < p2 1024" .
  show "isFinite (round64 s r)" using b by (rule round64_finite)
  show "val (round64 s r) = nearest r" using b by (rule round64_finite)
qed

lemma isFinite_cases: "isFinite a \<longleftrightarrow> a = NegZero \<or> (\<exists>r. a = Fin r)"
  by (cases a) (simp_all add: num_defs)

lemma is_zero_val: "isFinite a \<Longrightarrow> is_zero a \<longleftrightarrow> val a = 0"
  by (cases a) (simp_all add: num_defs)

lemma fin_mul: "isFinite a \<Longrightarrow> isFinite b \<Longrightarrow> num_mul a b = round64 (sign a \<noteq> sign b) (val a * val b)"
  by (simp add: num_mul_def isFinite_def)

lemma fin_div: "isFinite a \<Longrightarrow> isFinite b \<Longrightarrow> val b \<noteq> 0 \<Longrightarrow>
    num_div a b = round64 (sign a \<noteq> sign b) (val a / val b)"
  by (simp add: num_div_def isFinite_def is_zero_val)

lemma fin_add: "isFinite a \<Longrightarrow> isFinite b \<Longrightarrow>
    num_add a b = round64 (a = NegZero \<and> b = NegZero) (val a + val b)"
  by (simp add: num_add_def isFinite_def)

lemma fin_neg: "isFinite a \<Longrightarrow> isFinite (num_neg a) \<and> val (num_neg a) = - val a"
  by (cases a) (simp_all add: num_neg_def num_defs)

lemma fin_sub: "isFinite a \<Longrightarrow> isFinite b \<Longrightarrow>
    num_sub a b = round64 (a = NegZero \<and> num_neg b = NegZero) (val a - val b)"
  using fin_neg [of b] by (simp add: num_sub_def fin_add)

lemma fin_eq: "isFinite a \<Longrightarrow> isFinite b \<Longrightarrow> num_eq a b \<longleftrightarrow> val a = val b"
  by (cases a; cases b) (auto simp add: num_eq_def num_defs)

lemma positive_fin: "isFinite a \<Longrightarrow> positive a \<longleftrightarrow> 0 < val a"
  by (cases a) (simp_all add: positive_def num_lt_def num_defs)

lemma round64_not_nan: "\<not> is_nan (round64 s r)"
  by (simp add: round64_def Let_def num_defs)

lemma div_by_zero: "is_zero b \<Longrightarrow> \<not> isFinite (num_div a b)"
  by (cases a; cases b) (simp_all add: num_div_def num_defs)

lemma mul_nonfinite_left: "\<not> isFinite a \<Longrightarrow> \<not> isFinite (num_mul a b)"
  by (cases a; cases b) (simp_all add: num_mul_def num_defs)

lemma mul_nonfinite_right: "\<not> isFinite b \<Longrightarrow> \<not> isFinite (num_mul a b)"
  by (cases a; cases b) (simp_all add: num_mul_def num_defs)

lemma add_nonfinite_right: "\<not> isFinite b \<Longrightarrow> \<not> isFinite (num_add a b)"
  by (cases a; cases b) (simp_all add: num_add_def num_defs)

lemma inverse_of_nonfinite: "\<not> isFinite a \<Longrightarrow> is_zero (num_div (Fin 1) a) \<or> is_nan (num_div (Fin 1) a)"
  by (cases a) (simp_all add: num_div_def num_defs)

lemma nonfinite_neq: "\<not> isFinite a \<Longrightarrow> \<not> num_eq a (Fin 1)"
  by (cases a) (simp_all add: num_eq_def num_defs)

lemma zero_or_nan_neq: "is_zero a \<or> is_nan a \<Longrightarrow> \<not> num_eq a (Fin 1)"
  by (cases a) (auto simp add: num_eq_def num_defs)

subsection \<open>Evaluation\<close>

lemma num_mul_special:
  "num_mul NaN b = NaN" "num_mul a NaN = NaN"
  "num_mul PosInf (Fin r) = (if r = 0 then NaN else signed_inf (r < 0))"
  "num_mul NegInf (Fin r) = (if r = 0 then NaN else signed_inf (\<not> r < 0))"
  "num_mul (Fin r) PosInf = (if r = 0 then NaN else signed_inf (r < 0))"
  "num_mul (Fin r) NegInf = (if r = 0 then NaN else signed_inf (\<not> r < 0))"
  by (simp_all add: num_mul_def num_defs)

lemma num_div_special:
  "num_div NaN b = NaN" "num_div a NaN = NaN"
  "num_div (Fin r) PosInf = signed_zero (r < 0)"
  "num_div (Fin r) NegInf = signed_zero (\<not> r < 0)"
  "num_div (Fin r) NegZero = (if r = 0 then NaN else signed_inf (\<not> r < 0))"
  "num_div PosInf (Fin r) = signed_inf (r < 0)"
  "num_div NegInf (Fin r) = signed_inf (\<not> r < 0)"
  by (simp_all add: num_div_def num_defs)

lemma num_add_special:
  "num_add NaN b = NaN" "num_add a NaN = NaN"
  "num_add PosInf (Fin r) = PosInf" "num_add NegInf (Fin r) = NegInf"
  "num_add (Fin r) PosInf = PosInf" "num_add (Fin r) NegInf = NegInf"
  by (simp_all add: num_add_def num_defs)

lemma num_sub_special:
  "num_sub NaN b = NaN" "num_sub a NaN = NaN"
  "num_sub (Fin r) PosInf = NegInf" "num_sub (Fin r) NegInf = PosInf"
  "num_sub PosInf (Fin r) = PosInf" "num_sub NegInf (Fin r) = NegInf"
  by (simp_all add: num_sub_def num_neg_def num_add_def num_defs)

lemma num_test_eval:
  "is_zero (Fin r) = (r = 0)" "is_zero NegZero" "\<not> is_zero NaN" "\<not> is_zero PosInf" "\<not> is_zero NegInf"
  "isFinite (Fin r)" "isFinite NegZero" "\<not> isFinite NaN" "\<not> isFinite PosInf" "\<not> isFinite NegInf"
  "is_nan NaN" "\<not> is_nan (Fin r)" "\<not> is_nan PosInf" "\<not> is_nan NegInf" "\<not> is_nan NegZero"
  "val (Fin r) = r"
  "num_eq (Fin r) (Fin q) = (r = q)" "\<not> num_eq NaN b" "\<not> num_eq a NaN"
  "\<not> num_eq PosInf (Fin r)" "\<not> num_eq NegInf (Fin r)"
  "positive (Fin r) = (0 < r)" "positive PosInf" "\<not> positive NaN" "\<not> positive NegInf"
  by (auto simp add: num_eq_def positive_def num_lt_def num_defs)

lemmas num_eval = num_mul_Fin num_div_Fin num_add_Fin num_sub_Fin num_mul_special num_div_special
  num_add_special num_sub_special num_test_eval rnd64 signed_zero_def signed_inf_def

lemmas examples = origin_50_25_def example_start_def example_end_def flat_start_def snapshot_def

subsection \<open>A number and its reciprocal\<close>

lemma p2_values: "p2 (- 53) + p2 (- 53) = p2 (- 52)" "p2 (- 53) \<le> 1 / 2" "p2 1 = 2" "p2 0 = 1"
  "p2 (- 1) = 1 / 2"
  by (simp_all add: p2_def power_int_minus_divide)

lemma reciprocal_range:
  assumes "p2 (- k) \<le> \<bar>v\<bar>" and "\<bar>v\<bar> \<le> p2 k"
  shows "p2 (- k) \<le> \<bar>1 / v\<bar>" and "\<bar>1 / v\<bar> \<le> p2 k"
proof -
  have pos: "0 < \<bar>v\<bar>" using assms(1) p2_pos [of "- k"] by linarith
  have "1 / p2 k \<le> 1 / \<bar>v\<bar>" using assms(2) pos by (simp add: frac_le)
  then show "p2 (- k) \<le> \<bar>1 / v\<bar>" by (simp add: p2_neg)
  have "1 / \<bar>v\<bar> \<le> 1 / p2 (- k)" using assms(1) p2_pos [of "- k"] by (simp add: frac_le)
  then show "\<bar>1 / v\<bar> \<le> p2 k" using p2_pos [of k] by (simp add: p2_neg)
qed

lemma inverse_product:
  assumes f: "isFinite s" and lo: "p2 (- 1022) \<le> \<bar>val s\<bar>" and hi: "\<bar>val s\<bar> \<le> p2 1022"
  shows "isFinite (num_mul s (num_div (Fin 1) s))"
    and "\<bar>val (num_mul s (num_div (Fin 1) s)) - 1\<bar> \<le> p2 (- 52)"
proof -
  define v where "v = val s"
  define i where "i = num_div (Fin 1) s"
  have vpos: "0 < \<bar>v\<bar>" using lo p2_pos [of "- 1022"] by (simp add: v_def)
  then have vnz: "v \<noteq> 0" by auto
  have r1: "p2 (- 1022) \<le> \<bar>1 / v\<bar>" "\<bar>1 / v\<bar> \<le> p2 1022"
    using reciprocal_range [of 1022 v] lo hi by (simp_all add: v_def)
  have one: "isFinite (Fin 1)" "val (Fin 1) = 1" by (simp_all add: num_test_eval)
  have idef: "i = round64 (sign (Fin 1) \<noteq> sign s) (1 / v)"
    unfolding i_def v_def using fin_div [OF one(1) f] vnz one(2) by (simp add: v_def)
  have ifin: "isFinite i" and ival: "val i = nearest (1 / v)"
    unfolding idef using r1(2) by (rule round64_bounded; simp)+
  have ierr: "\<bar>val i - 1 / v\<bar> \<le> \<bar>1 / v\<bar> * p2 (- 53)"
    unfolding ival using r1(1) by (rule nearest_relative)
  have "v * val i - 1 = v * (val i - 1 / v)" using vnz by (simp add: field_simps)
  then have "\<bar>v * val i - 1\<bar> = \<bar>v\<bar> * \<bar>val i - 1 / v\<bar>" by (simp add: abs_mult)
  also have "\<dots> \<le> \<bar>v\<bar> * (\<bar>1 / v\<bar> * p2 (- 53))"
    using ierr by (intro mult_left_mono) simp_all
  also have "\<dots> = p2 (- 53)" using vnz by simp
  finally have perr: "\<bar>v * val i - 1\<bar> \<le> p2 (- 53)" .
  have small: "p2 (- 53) \<le> 1 / 2" by (rule p2_values)
  have r2hi: "\<bar>v * val i\<bar> < p2 (0 + 1)" using perr small by (simp add: p2_values abs_le_iff abs_less_iff)
  have "p2 (- 1022) \<le> p2 (- 1)" by (simp add: p2_le_iff)
  also have "\<dots> \<le> \<bar>v * val i\<bar>" using perr small by (simp add: p2_values abs_le_iff)
  finally have r2lo: "p2 (- 1022) \<le> \<bar>v * val i\<bar>" .
  have pdef: "num_mul s i = round64 (sign s \<noteq> sign i) (v * val i)"
    unfolding v_def by (rule fin_mul [OF f ifin])
  have r2le: "\<bar>v * val i\<bar> \<le> p2 1" using r2hi by simp
  have pfin: "isFinite (num_mul s i)" and pval: "val (num_mul s i) = nearest (v * val i)"
    unfolding pdef using r2le by (rule round64_bounded; simp)+
  have "\<bar>nearest (v * val i) - v * val i\<bar> \<le> p2 (0 - 53)"
    using r2lo r2hi by (rule nearest_err_exp)
  then have "\<bar>val (num_mul s i) - 1\<bar> \<le> p2 (- 53) + p2 (- 53)"
    unfolding pval using perr by (simp add: abs_le_iff)
  then show "\<bar>val (num_mul s (num_div (Fin 1) s)) - 1\<bar> \<le> p2 (- 52)"
    by (simp add: i_def p2_values)
  show "isFinite (num_mul s (num_div (Fin 1) s))" using pfin by (simp add: i_def)
qed

section \<open>Magnitudes\<close>

lemma p2_nonneg: "0 \<le> p2 a"
  using p2_pos [of a] by simp

lemma sign_mult: "u \<noteq> 0 \<Longrightarrow> v \<noteq> 0 \<Longrightarrow> (0 < u * v) = ((0 < u) = (0 < v))" for u v :: real
  by (auto simp add: zero_less_mult_iff neq_iff dest: less_asym)

lemma sign_divide: "u \<noteq> 0 \<Longrightarrow> v \<noteq> 0 \<Longrightarrow> (0 < u / v) = ((0 < u) = (0 < v))" for u v :: real
  by (auto simp add: zero_less_divide_iff neq_iff dest: less_asym)

lemma between_at_most: "between lo hi a \<Longrightarrow> at_most hi a"
  by (simp add: between_def at_most_def)

lemma at_most_mono: "at_most j a \<Longrightarrow> j \<le> k \<Longrightarrow> at_most k a"
proof -
  assume a: "at_most j a" and "j \<le> k"
  then have "p2 j \<le> p2 k" by (simp add: p2_le_iff)
  with a show ?thesis by (auto simp add: at_most_def)
qed

lemma between_mono: "between i j a \<Longrightarrow> i' \<le> i \<Longrightarrow> j \<le> j' \<Longrightarrow> between i' j' a"
proof -
  assume a: "between i j a" and "i' \<le> i" "j \<le> j'"
  then have "p2 i' \<le> p2 i" "p2 j \<le> p2 j'" by (simp_all add: p2_le_iff)
  with a show ?thesis by (auto simp add: between_def)
qed

lemma between_nonzero: "between i j a \<Longrightarrow> val a \<noteq> 0"
  using p2_pos [of i] by (auto simp add: between_def)

lemma one_between: "between 0 0 (Fin 1)"
  by (simp add: between_def p2_0 num_test_eval)

lemma round64_at_most:
  assumes "\<bar>r\<bar> \<le> p2 k" and "- 1022 \<le> k" and "k \<le> 1023"
  shows "at_most k (round64 s r)"
  using round64_bounded [OF assms] nearest_upper [OF assms(1,2)] by (simp add: at_most_def)

lemma round64_between:
  assumes "p2 i \<le> \<bar>r\<bar>" and "\<bar>r\<bar> \<le> p2 j" and "- 1022 \<le> i" and "j \<le> 1023"
  shows "between i j (round64 s r)" and "positive (round64 s r) = (0 < r)"
proof -
  have "p2 i \<le> p2 j" using assms(1,2) by linarith
  then have ij: "i \<le> j" by (simp only: p2_le_iff)
  then have j: "- 1022 \<le> j" using assms(3) by simp
  note b = round64_bounded [OF assms(2) j assms(4), of s]
  have lo: "p2 i \<le> \<bar>nearest r\<bar>" using assms(1,3) by (rule nearest_lower)
  have hi: "\<bar>nearest r\<bar> \<le> p2 j" using assms(2) j by (rule nearest_upper)
  show "between i j (round64 s r)" using b lo hi by (simp add: between_def)
  have nz: "0 < \<bar>nearest r\<bar>" using lo p2_pos [of i] by linarith
  have "(0 < nearest r) = (0 < r)"
    using nz nearest_sign [of r] by (cases "0 < r") auto
  then show "positive (round64 s r) = (0 < r)"
    using b by (simp add: positive_fin)
qed

lemma mul_between:
  assumes a: "between i j a" and b: "between k l b" and lo: "- 1022 \<le> i + k" and hi: "j + l \<le> 1023"
  shows "between (i + k) (j + l) (num_mul a b)"
    and "positive (num_mul a b) = (positive a = positive b)"
proof -
  have fa: "isFinite a" and fb: "isFinite b" using a b by (simp_all add: between_def p2_nonneg)
  have m: "num_mul a b = round64 (sign a \<noteq> sign b) (val a * val b)" by (rule fin_mul [OF fa fb])
  have 1: "p2 (i + k) \<le> \<bar>val a * val b\<bar>"
    unfolding p2_add abs_mult using a b p2_pos [of i] p2_pos [of k]
    by (intro mult_mono) (simp_all add: between_def p2_nonneg)
  have 2: "\<bar>val a * val b\<bar> \<le> p2 (j + l)"
    unfolding p2_add abs_mult using a b
    by (intro mult_mono) (simp_all add: between_def p2_nonneg)
  show "between (i + k) (j + l) (num_mul a b)"
    unfolding m using 1 2 lo hi by (rule round64_between)
  have "positive (num_mul a b) = (0 < val a * val b)"
    unfolding m using 1 2 lo hi by (rule round64_between)
  also have "\<dots> = ((0 < val a) = (0 < val b))"
    using between_nonzero [OF a] between_nonzero [OF b] by (rule sign_mult)
  finally show "positive (num_mul a b) = (positive a = positive b)"
    using fa fb by (simp add: positive_fin)
qed

lemma div_between:
  assumes a: "between i j a" and b: "between k l b" and lo: "- 1022 \<le> i - l" and hi: "j - k \<le> 1023"
  shows "between (i - l) (j - k) (num_div a b)"
    and "positive (num_div a b) = (positive a = positive b)"
proof -
  have fa: "isFinite a" and fb: "isFinite b" using a b by (simp_all add: between_def p2_nonneg)
  note nz = between_nonzero [OF b]
  have m: "num_div a b = round64 (sign a \<noteq> sign b) (val a / val b)" by (rule fin_div [OF fa fb nz])
  have bpos: "0 < \<bar>val b\<bar>" using nz by simp
  have 1: "p2 (i - l) \<le> \<bar>val a / val b\<bar>"
    unfolding p2_diff abs_divide using a b bpos p2_pos [of i]
    by (intro frac_le) (simp_all add: between_def p2_nonneg)
  have 2: "\<bar>val a / val b\<bar> \<le> p2 (j - k)"
    unfolding p2_diff abs_divide using a b p2_pos [of k]
    by (intro frac_le) (simp_all add: between_def p2_nonneg)
  show "between (i - l) (j - k) (num_div a b)"
    unfolding m using 1 2 lo hi by (rule round64_between)
  have "positive (num_div a b) = (0 < val a / val b)"
    unfolding m using 1 2 lo hi by (rule round64_between)
  also have "\<dots> = ((0 < val a) = (0 < val b))"
    using between_nonzero [OF a] nz by (rule sign_divide)
  finally show "positive (num_div a b) = (positive a = positive b)"
    using fa fb by (simp add: positive_fin)
qed

lemma mul_at_most:
  assumes a: "at_most j a" and b: "at_most l b" and lo: "- 1022 \<le> j + l" and hi: "j + l \<le> 1023"
  shows "at_most (j + l) (num_mul a b)"
proof -
  have fa: "isFinite a" and fb: "isFinite b" using a b by (simp_all add: at_most_def p2_nonneg)
  have m: "num_mul a b = round64 (sign a \<noteq> sign b) (val a * val b)" by (rule fin_mul [OF fa fb])
  have "\<bar>val a * val b\<bar> \<le> p2 (j + l)"
    unfolding p2_add abs_mult using a b
    by (intro mult_mono) (simp_all add: at_most_def p2_nonneg)
  then show ?thesis unfolding m using lo hi by (rule round64_at_most)
qed

lemma div_at_most:
  assumes a: "at_most j a" and b: "between k l b" and lo: "- 1022 \<le> j - k" and hi: "j - k \<le> 1023"
  shows "at_most (j - k) (num_div a b)"
proof -
  have fa: "isFinite a" and fb: "isFinite b" using a b by (simp_all add: at_most_def between_def p2_nonneg)
  note nz = between_nonzero [OF b]
  have m: "num_div a b = round64 (sign a \<noteq> sign b) (val a / val b)" by (rule fin_div [OF fa fb nz])
  have "\<bar>val a / val b\<bar> \<le> p2 (j - k)"
    unfolding p2_diff abs_divide using a b p2_pos [of k]
    by (intro frac_le) (simp_all add: at_most_def between_def p2_nonneg)
  then show ?thesis unfolding m using lo hi by (rule round64_at_most)
qed

lemma add_at_most:
  assumes a: "at_most j a" and b: "at_most j b" and lo: "- 1022 \<le> j + 1" and hi: "j + 1 \<le> 1023"
  shows "at_most (j + 1) (num_add a b)"
proof -
  have fa: "isFinite a" and fb: "isFinite b" using a b by (simp_all add: at_most_def p2_nonneg)
  have m: "num_add a b = round64 (a = NegZero \<and> b = NegZero) (val a + val b)"
    by (rule fin_add [OF fa fb])
  have "\<bar>val a + val b\<bar> \<le> p2 j + p2 j" using a b by (simp add: at_most_def abs_le_iff)
  then have "\<bar>val a + val b\<bar> \<le> p2 (j + 1)" by (simp add: p2_suc)
  then show ?thesis unfolding m using lo hi by (rule round64_at_most)
qed

lemma sub_at_most:
  assumes a: "at_most j a" and b: "at_most j b" and lo: "- 1022 \<le> j + 1" and hi: "j + 1 \<le> 1023"
  shows "at_most (j + 1) (num_sub a b)"
proof -
  have "at_most j (num_neg b)" using b fin_neg [of b] by (simp add: at_most_def)
  then show ?thesis unfolding num_sub_def using a lo hi by (intro add_at_most) simp_all
qed

subsection \<open>The value of an operation on bounded operands\<close>

lemma mul_val:
  assumes a: "at_most j a" and b: "at_most l b" and lo: "- 1022 \<le> j + l" and hi: "j + l \<le> 1023"
  shows "val (num_mul a b) = nearest (val a * val b)"
proof -
  have fa: "isFinite a" and fb: "isFinite b" using a b by (simp_all add: at_most_def p2_nonneg)
  have m: "num_mul a b = round64 (sign a \<noteq> sign b) (val a * val b)" by (rule fin_mul [OF fa fb])
  have "\<bar>val a * val b\<bar> \<le> p2 (j + l)"
    unfolding p2_add abs_mult using a b
    by (intro mult_mono) (simp_all add: at_most_def p2_nonneg)
  then show ?thesis unfolding m using lo hi by (rule round64_bounded)
qed

lemma div_val:
  assumes a: "at_most j a" and b: "between k l b" and lo: "- 1022 \<le> j - k" and hi: "j - k \<le> 1023"
  shows "val (num_div a b) = nearest (val a / val b)"
proof -
  have fa: "isFinite a" and fb: "isFinite b" using a b by (simp_all add: at_most_def between_def p2_nonneg)
  note nz = between_nonzero [OF b]
  have m: "num_div a b = round64 (sign a \<noteq> sign b) (val a / val b)" by (rule fin_div [OF fa fb nz])
  have "\<bar>val a / val b\<bar> \<le> p2 (j - k)"
    unfolding p2_diff abs_divide using a b p2_pos [of k]
    by (intro frac_le) (simp_all add: at_most_def between_def p2_nonneg)
  then show ?thesis unfolding m using lo hi by (rule round64_bounded)
qed

lemma add_val:
  assumes a: "at_most j a" and b: "at_most j b" and lo: "- 1022 \<le> j + 1" and hi: "j + 1 \<le> 1023"
  shows "val (num_add a b) = nearest (val a + val b)"
proof -
  have fa: "isFinite a" and fb: "isFinite b" using a b by (simp_all add: at_most_def p2_nonneg)
  have m: "num_add a b = round64 (a = NegZero \<and> b = NegZero) (val a + val b)"
    by (rule fin_add [OF fa fb])
  have "\<bar>val a + val b\<bar> \<le> p2 j + p2 j" using a b by (simp add: at_most_def abs_le_iff)
  then have "\<bar>val a + val b\<bar> \<le> p2 (j + 1)" by (simp add: p2_suc)
  then show ?thesis unfolding m using lo hi by (rule round64_bounded)
qed

lemma sub_val:
  assumes a: "at_most j a" and b: "at_most j b" and lo: "- 1022 \<le> j + 1" and hi: "j + 1 \<le> 1023"
  shows "val (num_sub a b) = nearest (val a - val b)"
proof -
  have fb: "isFinite b" using b by (simp add: at_most_def)
  have n: "at_most j (num_neg b)" using b fin_neg [of b] by (simp add: at_most_def)
  have "val (num_sub a b) = nearest (val a + val (num_neg b))"
    unfolding num_sub_def using a n lo hi by (rule add_val)
  then show ?thesis using fin_neg [OF fb] by simp
qed

lemma quotient_lower:
  assumes a: "between i j a" and b: "between k l b"
  shows "p2 (i - l) \<le> \<bar>val a / val b\<bar>"
proof -
  have bpos: "0 < \<bar>val b\<bar>" using between_nonzero [OF b] by simp
  show ?thesis
    unfolding p2_diff abs_divide using a b bpos p2_pos [of i]
    by (intro frac_le) (simp_all add: between_def p2_nonneg)
qed

section \<open>Accumulated rounding errors\<close>

text \<open>
  Facts of real numbers: how the errors of the roundings of one axis of \<open>getDelta\<close> add
  up. Here \<open>u\<close> bounds the relative error of a rounding and \<open>h\<close> its absolute error in
  the subnormal range; \<open>T\<close> and \<open>T2\<close> bound the products of \<open>h\<close> with the other values.
\<close>

lemma abs_le_add: "\<bar>p - q\<bar> \<le> e \<Longrightarrow> \<bar>p\<bar> \<le> \<bar>q\<bar> + e" for p q e :: real
  by linarith

lemma scale_error:
  fixes u ew sw m s :: real
  assumes u: "0 < u" "u \<le> 1 / 64" and pos: "0 < ew" "0 < sw"
    and r0: "\<bar>m - ew\<bar> \<le> u * ew"
    and r1: "\<bar>s - m / sw\<bar> \<le> u * (m / sw)"
  shows "\<bar>s - ew / sw\<bar> \<le> 3 * u * (ew / sw)" and "ew / sw \<le> 2 * s" and "0 < s"
proof -
  define R where "R = ew / sw"
  have Rpos: "0 < R" using pos by (simp add: R_def)
  have "m / sw - R = (m - ew) / sw" by (simp add: R_def diff_divide_distrib)
  then have "\<bar>m / sw - R\<bar> = \<bar>m - ew\<bar> / sw" using pos by (simp add: abs_divide)
  also have "\<dots> \<le> u * ew / sw" using r0 pos by (simp add: divide_right_mono)
  finally have q: "\<bar>m / sw - R\<bar> \<le> u * R" by (simp add: R_def)
  have uR: "0 \<le> u * R" using u Rpos by simp
  have "u * (u * R) \<le> 1 * (u * R)" using u uR by (intro mult_right_mono) simp_all
  then have uuR: "u * (u * R) \<le> u * R" by simp
  have "u * (m / sw) \<le> u * (R + u * R)" using q u by (intro mult_left_mono) (simp_all add: abs_le_iff)
  also have "\<dots> = u * R + u * (u * R)" by (simp add: algebra_simps)
  finally have "u * (m / sw) \<le> 2 * (u * R)" using uuR by simp
  with r1 q have "\<bar>s - R\<bar> \<le> 3 * (u * R)" by (simp add: abs_le_iff)
  then show e: "\<bar>s - ew / sw\<bar> \<le> 3 * u * (ew / sw)" by (simp add: R_def)
  have "3 * (u * R) \<le> 3 * (1 / 64 * R)" using u Rpos by (intro mult_left_mono mult_right_mono) simp_all
  then have "3 * (u * R) \<le> R / 2" using Rpos by simp
  with \<open>\<bar>s - R\<bar> \<le> 3 * (u * R)\<close> have "R / 2 \<le> s" by (simp add: abs_le_iff)
  then show "ew / sw \<le> 2 * s" by (simp add: R_def)
  from \<open>R / 2 \<le> s\<close> Rpos show "0 < s" by simp
qed

lemma inverse_error:
  fixes u ew sw s i :: real
  assumes u: "0 < u" "u \<le> 1 / 64" and pos: "0 < ew" "0 < sw" "0 < s"
    and se: "\<bar>s - ew / sw\<bar> \<le> 3 * u * (ew / sw)" and sl: "ew / sw \<le> 2 * s"
    and r2: "\<bar>i - 1 / s\<bar> \<le> u * (1 / s)"
  shows "\<bar>ew * i - sw\<bar> \<le> 10 * u * sw"
proof -
  define R where "R = ew / sw"
  have Rpos: "0 < R" using pos by (simp add: R_def)
  have "i * s - 1 = (i - 1 / s) * s" using pos by (simp add: field_simps)
  then have "\<bar>i * s - 1\<bar> = \<bar>i - 1 / s\<bar> * s" using pos by (simp add: abs_mult)
  also have "\<dots> \<le> u * (1 / s) * s" using r2 pos by (intro mult_right_mono) simp_all
  finally have is1: "\<bar>i * s - 1\<bar> \<le> u" using pos by simp
  then have ispos: "0 \<le> i * s" using u by (simp add: abs_le_iff)
  then have ipos: "0 \<le> i" using pos by (simp add: zero_le_mult_iff)
  have "R * i \<le> 2 * s * i" using sl ipos by (intro mult_right_mono) (simp_all add: R_def)
  also have "\<dots> = 2 * (i * s)" by simp
  also have "\<dots> \<le> 2 * (1 + u)" using is1 by (simp add: abs_le_iff)
  also have "\<dots> \<le> 3" using u by simp
  finally have Ri: "R * i \<le> 3" .
  have Ripos: "0 \<le> R * i" using Rpos ipos by simp
  have "R * i - 1 = (R - s) * i + (i * s - 1)" by (simp add: algebra_simps)
  then have "\<bar>R * i - 1\<bar> \<le> \<bar>R - s\<bar> * i + \<bar>i * s - 1\<bar>"
  proof -
    have "\<bar>(R - s) * i\<bar> = \<bar>R - s\<bar> * i" using ipos by (simp add: abs_mult)
    moreover have "\<bar>(R - s) * i + (i * s - 1)\<bar> \<le> \<bar>(R - s) * i\<bar> + \<bar>i * s - 1\<bar>"
      by (rule abs_triangle_ineq)
    ultimately show ?thesis using \<open>R * i - 1 = (R - s) * i + (i * s - 1)\<close> by simp
  qed
  also have "\<bar>R - s\<bar> * i \<le> 3 * u * R * i"
    using se ipos by (intro mult_right_mono) (simp_all add: R_def abs_minus_commute)
  also have "3 * u * R * i = 3 * u * (R * i)" by simp
  also have "\<dots> \<le> 3 * u * 3" using Ri u by (intro mult_left_mono) simp_all
  finally have "\<bar>R * i - 1\<bar> \<le> 10 * u" using is1 by simp
  moreover have "ew * i - sw = sw * (R * i - 1)" using pos by (simp add: R_def field_simps)
  ultimately have "\<bar>ew * i - sw\<bar> \<le> sw * (10 * u)"
    using pos by (simp add: abs_mult)
  then show ?thesis by (simp add: mult.commute)
qed

lemma two_roundings:
  fixes u h T B y b :: real
  assumes u: "0 \<le> u" "u \<le> 1" and h: "0 \<le> h" "h \<le> T"
    and y: "\<bar>y - B\<bar> \<le> u * \<bar>B\<bar> + T"
    and b: "\<bar>b - y\<bar> \<le> u * \<bar>y\<bar> + h"
  shows "\<bar>b - B\<bar> \<le> 3 * (u * \<bar>B\<bar>) + 3 * T"
proof -
  have T: "0 \<le> T" using h by simp
  have uB: "0 \<le> u * \<bar>B\<bar>" using u by simp
  have "u * \<bar>B\<bar> \<le> 1 * \<bar>B\<bar>" using u by (intro mult_right_mono) simp_all
  then have uB1: "u * \<bar>B\<bar> \<le> \<bar>B\<bar>" by simp
  have "u * T \<le> 1 * T" using u T by (intro mult_right_mono) simp_all
  then have uT: "u * T \<le> T" by simp
  have "\<bar>y\<bar> \<le> \<bar>B\<bar> + (u * \<bar>B\<bar> + T)" using y by linarith
  then have "\<bar>y\<bar> \<le> 2 * \<bar>B\<bar> + T" using uB1 by linarith
  then have "u * \<bar>y\<bar> \<le> u * (2 * \<bar>B\<bar> + T)" using u by (intro mult_left_mono) simp_all
  also have "\<dots> = 2 * (u * \<bar>B\<bar>) + u * T" by (simp add: algebra_simps)
  finally have "u * \<bar>y\<bar> \<le> 2 * (u * \<bar>B\<bar>) + T" using uT by linarith
  with y b h show ?thesis by linarith
qed

lemma product_of_roundings:
  fixes u h T T2 C B c b :: real
  assumes u: "0 \<le> u" "u \<le> 1 / 64" and h: "0 \<le> h" and T: "0 \<le> T"
    and c: "\<bar>c - C\<bar> \<le> 3 * (u * \<bar>C\<bar>) + 3 * h"
    and b: "\<bar>b - B\<bar> \<le> 3 * (u * \<bar>B\<bar>) + 3 * T"
    and t: "\<bar>C\<bar> * T \<le> T2" "h * \<bar>B\<bar> \<le> T2" "h * T \<le> T2"
  shows "\<bar>c * b - C * B\<bar> \<le> 9 * (u * (\<bar>C\<bar> * \<bar>B\<bar>)) + 27 * T2"
proof -
  have T2: "0 \<le> T2" using t(3) h T by (meson mult_nonneg_nonneg order_trans)
  have uB: "0 \<le> u * \<bar>B\<bar>" and uC: "0 \<le> u * \<bar>C\<bar>" using u by simp_all
  have "3 * (u * \<bar>B\<bar>) \<le> 3 * (1 / 64 * \<bar>B\<bar>)" using u by (intro mult_left_mono mult_right_mono) simp_all
  then have "3 * (u * \<bar>B\<bar>) \<le> \<bar>B\<bar>" by simp
  then have bb: "\<bar>b\<bar> \<le> 2 * \<bar>B\<bar> + 3 * T" using b by linarith
  have "\<bar>(c - C) * b\<bar> = \<bar>c - C\<bar> * \<bar>b\<bar>" by (simp add: abs_mult)
  also have "\<dots> \<le> (3 * (u * \<bar>C\<bar>) + 3 * h) * (2 * \<bar>B\<bar> + 3 * T)"
    using c bb uC h by (intro mult_mono) simp_all
  also have "\<dots> = 6 * (u * (\<bar>C\<bar> * \<bar>B\<bar>)) + 9 * (u * (\<bar>C\<bar> * T)) + 6 * (h * \<bar>B\<bar>) + 9 * (h * T)"
    by (simp add: algebra_simps)
  finally have p1: "\<bar>(c - C) * b\<bar> \<le> 6 * (u * (\<bar>C\<bar> * \<bar>B\<bar>)) + 9 * (u * (\<bar>C\<bar> * T)) + 6 * (h * \<bar>B\<bar>) + 9 * (h * T)" .
  have CT: "0 \<le> \<bar>C\<bar> * T" using T by simp
  have "u * (\<bar>C\<bar> * T) \<le> 1 * (\<bar>C\<bar> * T)" using u CT by (intro mult_right_mono) simp_all
  then have uCT: "u * (\<bar>C\<bar> * T) \<le> T2" using t(1) by simp
  have "\<bar>C * (b - B)\<bar> = \<bar>C\<bar> * \<bar>b - B\<bar>" by (simp add: abs_mult)
  also have "\<dots> \<le> \<bar>C\<bar> * (3 * (u * \<bar>B\<bar>) + 3 * T)" using b by (intro mult_left_mono) simp_all
  also have "\<dots> = 3 * (u * (\<bar>C\<bar> * \<bar>B\<bar>)) + 3 * (\<bar>C\<bar> * T)" by (simp add: algebra_simps)
  finally have p2: "\<bar>C * (b - B)\<bar> \<le> 3 * (u * (\<bar>C\<bar> * \<bar>B\<bar>)) + 3 * (\<bar>C\<bar> * T)" .
  have "c * b - C * B = (c - C) * b + C * (b - B)" by (simp add: algebra_simps)
  then have "\<bar>c * b - C * B\<bar> \<le> \<bar>(c - C) * b\<bar> + \<bar>C * (b - B)\<bar>"
    using abs_triangle_ineq [of "(c - C) * b" "C * (b - B)"] by simp
  with p1 p2 uCT t show ?thesis by linarith
qed

lemma rounded_product:
  fixes u h T2 P p D :: real
  assumes u: "0 \<le> u" "u \<le> 1 / 64" and h: "0 \<le> h" "h \<le> T2"
    and p: "\<bar>p - P\<bar> \<le> 9 * (u * \<bar>P\<bar>) + 27 * T2"
    and D: "\<bar>D - p\<bar> \<le> u * \<bar>p\<bar> + h"
  shows "\<bar>D - P\<bar> \<le> 11 * (u * \<bar>P\<bar>) + 55 * T2"
proof -
  have T2: "0 \<le> T2" using h by simp
  have "9 * (u * \<bar>P\<bar>) \<le> 9 * (1 / 64 * \<bar>P\<bar>)" using u by (intro mult_left_mono mult_right_mono) simp_all
  then have "9 * (u * \<bar>P\<bar>) \<le> \<bar>P\<bar>" by simp
  then have "\<bar>p\<bar> \<le> 2 * \<bar>P\<bar> + 27 * T2" using p by linarith
  then have "u * \<bar>p\<bar> \<le> u * (2 * \<bar>P\<bar> + 27 * T2)" using u by (intro mult_left_mono) simp_all
  also have "\<dots> = 2 * (u * \<bar>P\<bar>) + 27 * (u * T2)" by (simp add: algebra_simps)
  finally have a: "u * \<bar>p\<bar> \<le> 2 * (u * \<bar>P\<bar>) + 27 * (u * T2)" .
  have "u * T2 \<le> 1 * T2" using u T2 by (intro mult_right_mono) simp_all
  then have "u * T2 \<le> T2" by simp
  with a p D h show ?thesis by linarith
qed

lemma pivot_axis:
  fixes u h T T2 ew sw og el sl m s i a b c c' D t x :: real
  assumes u: "0 < u" "u \<le> 1 / 64"
    and h: "0 \<le> h" "h \<le> T" "ew * h \<le> T" "T \<le> T2" "\<bar>og / sw\<bar> * T \<le> T2"
      "h * (ew + 2 * sw) \<le> T2" "h * T \<le> T2" "113 * T2 \<le> u"
    and pos: "0 < ew" "0 < sw"
    and r0: "\<bar>m - ew\<bar> \<le> u * ew"
    and r1: "\<bar>s - m / sw\<bar> \<le> u * (m / sw)"
    and r2: "\<bar>i - 1 / s\<bar> \<le> u * (1 / s)"
    and r3: "\<bar>a - (1 - i)\<bar> \<le> u * \<bar>1 - i\<bar> + h"
    and r4: "\<bar>b - ew * a\<bar> \<le> u * \<bar>ew * a\<bar> + h"
    and r5: "\<bar>c - og / sw\<bar> \<le> u * \<bar>og / sw\<bar> + h"
    and r6: "\<bar>c' - c\<bar> \<le> u * \<bar>c\<bar> + h"
    and r7: "\<bar>D - c' * b\<bar> \<le> u * \<bar>c' * b\<bar> + h"
    and r8: "\<bar>t - (el - sl)\<bar> \<le> u * \<bar>el - sl\<bar> + h"
    and r9: "\<bar>x - (t + D)\<bar> \<le> u * \<bar>t + D\<bar> + h"
  shows "\<bar>sl + (x + og + s * (0 - og)) - el\<bar>
           \<le> 64 * u * (1 + \<bar>el - sl\<bar> + \<bar>og\<bar> * (1 + ew / sw) + ew)"
    and "\<bar>sl + (x + og + s * (sw - og)) - (el + ew)\<bar>
           \<le> 64 * u * (1 + \<bar>el - sl\<bar> + \<bar>og\<bar> * (1 + ew / sw) + ew)"
proof -
  define R where "R = ew / sw"
  define Q where "Q = \<bar>og\<bar> * (1 + R)"
  define C where "C = og / sw"
  define B where "B = ew * (1 - i)"
  define dl where "dl = el - sl"
  have u0: "0 \<le> u" "u \<le> 1" using u by simp_all
  have T: "0 \<le> T" and T2: "0 \<le> T2" using h by simp_all
  have Rpos: "0 < R" using pos by (simp add: R_def)
  have Q0: "0 \<le> Q" using Rpos by (simp add: Q_def)
  have ogQ: "\<bar>og\<bar> \<le> Q"
  proof -
    have "\<bar>og\<bar> * 1 \<le> \<bar>og\<bar> * (1 + R)" using Rpos by (intro mult_left_mono) simp_all
    then show ?thesis by (simp add: Q_def)
  qed
  have RQ: "\<bar>og\<bar> * R \<le> Q"
  proof -
    have "\<bar>og\<bar> * R \<le> \<bar>og\<bar> * (1 + R)" by (intro mult_left_mono) simp_all
    then show ?thesis by (simp add: Q_def)
  qed
  note S = scale_error [OF u pos r0 r1, folded R_def]
  note I = inverse_error [OF u pos S(3) S(1) [unfolded R_def] S(2) [unfolded R_def] r2]
  have "10 * u * sw \<le> 10 * (1 / 64) * sw" using u pos by (intro mult_right_mono mult_left_mono) simp_all
  then have usw: "10 * u * sw \<le> sw" using pos by simp
  have "B = (ew - sw) + (sw - ew * i)" by (simp add: B_def algebra_simps)
  then have "\<bar>B\<bar> \<le> \<bar>ew - sw\<bar> + \<bar>ew * i - sw\<bar>" by linarith
  then have Bcap: "\<bar>B\<bar> \<le> ew + 2 * sw" using I usw pos by linarith
  have "ew * a - B = ew * (a - (1 - i))" by (simp add: B_def algebra_simps)
  then have "\<bar>ew * a - B\<bar> = ew * \<bar>a - (1 - i)\<bar>" using pos by (simp add: abs_mult)
  also have "\<dots> \<le> ew * (u * \<bar>1 - i\<bar> + h)" using r3 pos by (intro mult_left_mono) simp_all
  also have "\<dots> = u * (ew * \<bar>1 - i\<bar>) + ew * h" by (simp add: algebra_simps)
  also have "ew * \<bar>1 - i\<bar> = \<bar>B\<bar>" using pos by (simp add: B_def abs_mult)
  finally have y: "\<bar>ew * a - B\<bar> \<le> u * \<bar>B\<bar> + T" using h(3) by linarith
  note b = two_roundings [OF u0 h(1,2) y r4]
  have c0: "\<bar>c - C\<bar> \<le> u * \<bar>C\<bar> + h" using r5 by (simp add: C_def)
  note c = two_roundings [OF u0 h(1) order_refl c0 r6]
  have hB: "h * \<bar>B\<bar> \<le> T2"
  proof -
    have "h * \<bar>B\<bar> \<le> h * (ew + 2 * sw)" using Bcap h(1) by (intro mult_left_mono) simp_all
    with h(6) show ?thesis by linarith
  qed
  have CT: "\<bar>C\<bar> * T \<le> T2" using h(5) by (simp add: C_def)
  note p = product_of_roundings [OF u0(1) u(2) h(1) T c b CT hB h(7)]
  have CB: "\<bar>C\<bar> * \<bar>B\<bar> = \<bar>C * B\<bar>" by (simp add: abs_mult)
  have hT2: "h \<le> T2" using h by linarith
  note d = rounded_product [OF u0(1) u(2) h(1) hT2 p [unfolded CB] r7]
  have Csw: "\<bar>C\<bar> * sw = \<bar>og\<bar>" using pos by (simp add: C_def abs_divide)
  have Cew: "\<bar>C\<bar> * ew = \<bar>og\<bar> * R" using pos by (simp add: C_def R_def abs_divide)
  have "\<bar>C * B\<bar> = \<bar>C\<bar> * \<bar>B\<bar>" by (simp add: abs_mult)
  also have "\<dots> \<le> \<bar>C\<bar> * (ew + 2 * sw)" using Bcap by (intro mult_left_mono) simp_all
  also have "\<dots> = \<bar>C\<bar> * ew + 2 * (\<bar>C\<bar> * sw)" by (simp add: algebra_simps)
  also have "\<dots> = \<bar>og\<bar> * R + 2 * \<bar>og\<bar>" by (simp only: Csw Cew)
  also have "\<dots> \<le> 2 * Q" using Rpos by (simp add: Q_def algebra_simps)
  finally have P2Q: "\<bar>C * B\<bar> \<le> 2 * Q" .
  have uP: "u * \<bar>C * B\<bar> \<le> 2 * (u * Q)"
  proof -
    have "u * \<bar>C * B\<bar> \<le> u * (2 * Q)" using P2Q u0 by (intro mult_left_mono) simp_all
    then show ?thesis by simp
  qed
  have uQ0: "0 \<le> u * Q" using u0 Q0 by simp
  have "u * Q \<le> 1 / 64 * Q" using u Q0 by (intro mult_right_mono) simp_all
  then have uQ: "22 * (u * Q) \<le> Q" using uQ0 by linarith
  have Dcap: "\<bar>D\<bar> \<le> 4 * Q + 55 * T2" using d uP P2Q uQ by linarith
  have "C * B - og * (R - 1) = - (C * (ew * i - sw))" using pos by (simp add: C_def B_def R_def field_simps)
  then have "\<bar>C * B - og * (R - 1)\<bar> = \<bar>C\<bar> * \<bar>ew * i - sw\<bar>" by (simp add: abs_mult)
  also have "\<dots> \<le> \<bar>C\<bar> * (10 * u * sw)" using I by (intro mult_left_mono) simp_all
  also have "\<dots> = 10 * u * (\<bar>C\<bar> * sw)" by simp
  also have "\<dots> = 10 * (u * \<bar>og\<bar>)" by (simp only: Csw mult.assoc)
  finally have g: "\<bar>C * B - og * (R - 1)\<bar> \<le> 10 * (u * \<bar>og\<bar>)" .
  have uog: "u * \<bar>og\<bar> \<le> u * Q" using ogQ u0 by (intro mult_left_mono) simp_all
  have t': "\<bar>t - dl\<bar> \<le> u * \<bar>dl\<bar> + h" using r8 by (simp add: dl_def)
  have "u * \<bar>dl\<bar> \<le> 1 * \<bar>dl\<bar>" using u0 by (intro mult_right_mono) simp_all
  then have tcap: "\<bar>t\<bar> \<le> 2 * \<bar>dl\<bar> + h" using t' by linarith
  define W where "W = h + 55 * T2"
  have W: "0 \<le> W" "W \<le> 56 * T2" using h(1) T2 hT2 by (simp_all add: W_def)
  have tD: "\<bar>t + D\<bar> \<le> 2 * \<bar>dl\<bar> + 4 * Q + W" using tcap Dcap by (simp add: W_def)
  have "u * \<bar>t + D\<bar> \<le> u * (2 * \<bar>dl\<bar> + 4 * Q + W)" using tD u0 by (intro mult_left_mono) simp_all
  also have "\<dots> = 2 * (u * \<bar>dl\<bar>) + 4 * (u * Q) + u * W" by (simp add: algebra_simps)
  finally have utD: "u * \<bar>t + D\<bar> \<le> 2 * (u * \<bar>dl\<bar>) + 4 * (u * Q) + u * W" .
  have "u * W \<le> 1 * W" using u0 W by (intro mult_right_mono) simp_all
  then have uh: "u * W \<le> 56 * T2" using W by linarith
  have xe: "\<bar>x - (t + D)\<bar> \<le> 2 * (u * \<bar>dl\<bar>) + 4 * (u * Q) + 57 * T2" using r9 utD uh hT2 by linarith
  have X: "\<bar>x - dl - og * (R - 1)\<bar> \<le> 3 * (u * \<bar>dl\<bar>) + 36 * (u * Q) + 113 * T2"
    using xe t' d uP g uog hT2 by linarith
  have "\<bar>og * (R - s)\<bar> = \<bar>og\<bar> * \<bar>s - R\<bar>" by (simp add: abs_mult abs_minus_commute)
  also have "\<dots> \<le> \<bar>og\<bar> * (3 * u * R)" using S(1) by (intro mult_left_mono) simp_all
  also have "\<dots> = 3 * (u * (\<bar>og\<bar> * R))" by simp
  also have "\<dots> \<le> 3 * (u * Q)" using RQ u0 by (intro mult_left_mono) simp_all
  finally have k: "\<bar>og * (R - s)\<bar> \<le> 3 * (u * Q)" .
  have "sl + (x + og + s * (0 - og)) - el = (x - dl - og * (R - 1)) + og * (R - s)"
    by (simp add: dl_def algebra_simps)
  then have E0: "\<bar>sl + (x + og + s * (0 - og)) - el\<bar> \<le> 3 * (u * \<bar>dl\<bar>) + 39 * (u * Q) + u"
    using X k h(8) by linarith
  have "s * sw - ew = sw * (s - R)" using pos by (simp add: R_def field_simps)
  then have "\<bar>s * sw - ew\<bar> = sw * \<bar>s - R\<bar>" using pos by (simp add: abs_mult)
  also have "\<dots> \<le> sw * (3 * u * R)" using S(1) pos by (intro mult_left_mono) simp_all
  also have "\<dots> = 3 * (u * ew)" using pos by (simp add: R_def)
  finally have w: "\<bar>s * sw - ew\<bar> \<le> 3 * (u * ew)" .
  have "sl + (x + og + s * (sw - og)) - (el + ew) = (sl + (x + og + s * (0 - og)) - el) + (s * sw - ew)"
    by (simp add: algebra_simps)
  then have E1: "\<bar>sl + (x + og + s * (sw - og)) - (el + ew)\<bar> \<le> 3 * (u * \<bar>dl\<bar>) + 39 * (u * Q) + u + 3 * (u * ew)"
    using E0 w by linarith
  have udl: "0 \<le> u * \<bar>dl\<bar>" and uew: "0 \<le> u * ew" using u0 pos by simp_all
  have expand: "64 * u * (1 + \<bar>el - sl\<bar> + \<bar>og\<bar> * (1 + ew / sw) + ew)
      = 64 * u + 64 * (u * \<bar>dl\<bar>) + 64 * (u * Q) + 64 * (u * ew)"
    by (simp add: dl_def Q_def R_def algebra_simps)
  show "\<bar>sl + (x + og + s * (0 - og)) - el\<bar> \<le> 64 * u * (1 + \<bar>el - sl\<bar> + \<bar>og\<bar> * (1 + ew / sw) + ew)"
    unfolding expand using E0 udl uQ0 uew u by linarith
  show "\<bar>sl + (x + og + s * (sw - og)) - (el + ew)\<bar> \<le> 64 * u * (1 + \<bar>el - sl\<bar> + \<bar>og\<bar> * (1 + ew / sw) + ew)"
    unfolding expand using E1 udl uQ0 uew u by linarith
qed

section \<open>Properties of \<open>getDelta\<close>\<close>

lemma getDelta_fields:
  "scaleX (getDelta parse start end')
     = num_div (num_mul (naturalToCloneScale start) (width (rect end'))) (width (rect start))"
  "scaleY (getDelta parse start end')
     = num_div (num_mul (naturalToCloneScale start) (height (rect end'))) (height (rect start))"
  "inverseScaleX (getDelta parse start end') = num_div (Fin 1) (scaleX (getDelta parse start end'))"
  "inverseScaleY (getDelta parse start end') = num_div (Fin 1) (scaleY (getDelta parse start end'))"
  "x (getDelta parse start end')
     = num_add (num_sub (left (rect end')) (left (rect start)))
         (num_mul (num_mul (naturalToCloneScale start)
                     (num_div (x (parse (getStyle start ''transformOrigin''))) (width (rect start))))
                  (num_mul (width (rect end'))
                     (num_sub (Fin 1) (inverseScaleX (getDelta parse start end')))))"
  "y (getDelta parse start end')
     = num_add (num_sub (top_px (rect end')) (top_px (rect start)))
         (num_mul (num_mul (naturalToCloneScale start)
                     (num_div (y (parse (getStyle start ''transformOrigin''))) (height (rect start))))
                  (num_mul (height (rect end'))
                     (num_sub (Fin 1) (inverseScaleY (getDelta parse start end')))))"
  by (simp_all add: getDelta_def Let_def)

subsection \<open>The formulas\<close>

text \<open>
  C1. Where the widths and heights of both rects are nonzero, \<open>getDelta\<close> returns the
  delta of the specification's formulas: every field of its result is the field that
  \<open>computeDelta\<close> gives, the origin being the parsed transform-origin style of start.
\<close>

theorem getDelta_refines_computeDelta:
  assumes "\<not> is_zero (width (rect start))" and "\<not> is_zero (height (rect start))"
    and "\<not> is_zero (width (rect end'))" and "\<not> is_zero (height (rect end'))"
  shows "getDelta parse start end' = computeDelta parse start end'"
  using assms by (simp add: getDelta_def computeDelta_def Let_def)

theorem getDelta_refines_computeDelta_witness:
  "\<not> is_zero (width (rect example_start)) \<and> \<not> is_zero (height (rect example_start))
   \<and> \<not> is_zero (width (rect example_end)) \<and> \<not> is_zero (height (rect example_end))
   \<and> getDelta origin_50_25 example_start example_end
       = computeDelta origin_50_25 example_start example_end"
proof -
  have a: "\<not> is_zero (width (rect example_start))" "\<not> is_zero (height (rect example_start))"
    and b: "\<not> is_zero (width (rect example_end))" "\<not> is_zero (height (rect example_end))"
    by (simp_all add: examples num_test_eval)
  from a b show ?thesis
    using getDelta_refines_computeDelta
      [where start = example_start and end' = example_end and parse = origin_50_25]
    by simp
qed

text \<open>
  C4. The concrete scenario: from the rect (0, 0, 100, 50) to the rect (200, 100, 50, 25),
  with the transform-origin resolving to (50, 25) and \<open>naturalToCloneScale\<close> 1, the delta
  is x = 175, y = 87.5, both scales 0.5 and both inverse scales 2. Every intermediate
  value of this computation is a double, so that each rounding returns its argument.
\<close>

theorem concrete_delta_scenario:
  assumes "rect start = \<lparr> left = Fin 0, top_px = Fin 0, width = Fin 100, height = Fin 50 \<rparr>"
    and "rect end' = \<lparr> left = Fin 200, top_px = Fin 100, width = Fin 50, height = Fin 25 \<rparr>"
    and "parse (getStyle start ''transformOrigin'') = \<lparr> x = Fin 50, y = Fin 25 \<rparr>"
    and "naturalToCloneScale start = Fin 1"
  shows "getDelta parse start end'
         = \<lparr> x = Fin 175, y = Fin 87.5, scaleX = Fin 0.5, scaleY = Fin 0.5,
             inverseScaleX = Fin 2, inverseScaleY = Fin 2 \<rparr>"
  using assms by (simp add: getDelta_def Let_def num_eval)

theorem concrete_delta_scenario_witness:
  "rect example_start = \<lparr> left = Fin 0, top_px = Fin 0, width = Fin 100, height = Fin 50 \<rparr>
   \<and> rect example_end = \<lparr> left = Fin 200, top_px = Fin 100, width = Fin 50, height = Fin 25 \<rparr>
   \<and> origin_50_25 (getStyle example_start ''transformOrigin'') = \<lparr> x = Fin 50, y = Fin 25 \<rparr>
   \<and> naturalToCloneScale example_start = Fin 1
   \<and> getDelta origin_50_25 example_start example_end
      = \<lparr> x = Fin 175, y = Fin 87.5, scaleX = Fin 0.5, scaleY = Fin 0.5,
          inverseScaleX = Fin 2, inverseScaleY = Fin 2 \<rparr>"
  using concrete_delta_scenario
    [where start = example_start and end' = example_end and parse = origin_50_25]
  by (simp add: examples)

subsection \<open>Degenerate geometry\<close>

lemma nonfinite_x:
  assumes "is_zero sw"
  shows "\<not> isFinite (num_add a (num_mul (num_mul n (num_div og sw)) b))"
  using assms by (simp add: add_nonfinite_right mul_nonfinite_left mul_nonfinite_right div_by_zero)

text \<open>
  C2, as the code has it. \<open>getDelta\<close> has no clamp: where the width of the start rect is
  0, \<open>scaleX\<close> is an infinity or \<open>NaN\<close> and never 1, \<open>inverseScaleX\<close> is a zero or \<open>NaN\<close>
  and never 1, and \<open>x\<close> is not finite, whatever the other inputs; likewise with the
  height for \<open>scaleY\<close>, \<open>inverseScaleY\<close> and \<open>y\<close>.
\<close>

theorem zero_start_dimension_not_clamped:
  fixes parse start end'
  defines "d \<equiv> getDelta parse start end'"
  shows "(is_zero (width (rect start)) \<longrightarrow>
            \<not> isFinite (scaleX d) \<and> \<not> num_eq (scaleX d) (Fin 1)
            \<and> (is_zero (inverseScaleX d) \<or> is_nan (inverseScaleX d))
            \<and> \<not> num_eq (inverseScaleX d) (Fin 1) \<and> \<not> isFinite (x d))
       \<and> (is_zero (height (rect start)) \<longrightarrow>
            \<not> isFinite (scaleY d) \<and> \<not> num_eq (scaleY d) (Fin 1)
            \<and> (is_zero (inverseScaleY d) \<or> is_nan (inverseScaleY d))
            \<and> \<not> num_eq (inverseScaleY d) (Fin 1) \<and> \<not> isFinite (y d))"
proof (intro conjI impI)
  assume w: "is_zero (width (rect start))"
  show sx: "\<not> isFinite (scaleX d)"
    using w by (simp add: d_def getDelta_def Let_def div_by_zero)
  then show "\<not> num_eq (scaleX d) (Fin 1)"
    by (rule nonfinite_neq)
  have ix: "inverseScaleX d = num_div (Fin 1) (scaleX d)"
    by (simp add: d_def getDelta_def Let_def)
  show zx: "is_zero (inverseScaleX d) \<or> is_nan (inverseScaleX d)"
    unfolding ix using sx by (rule inverse_of_nonfinite)
  then show "\<not> num_eq (inverseScaleX d) (Fin 1)"
    by (rule zero_or_nan_neq)
  show "\<not> isFinite (x d)"
    using w by (simp add: d_def getDelta_def Let_def nonfinite_x)
next
  assume h: "is_zero (height (rect start))"
  show sy: "\<not> isFinite (scaleY d)"
    using h by (simp add: d_def getDelta_def Let_def div_by_zero)
  then show "\<not> num_eq (scaleY d) (Fin 1)"
    by (rule nonfinite_neq)
  have iy: "inverseScaleY d = num_div (Fin 1) (scaleY d)"
    by (simp add: d_def getDelta_def Let_def)
  show zy: "is_zero (inverseScaleY d) \<or> is_nan (inverseScaleY d)"
    unfolding iy using sy by (rule inverse_of_nonfinite)
  then show "\<not> num_eq (inverseScaleY d) (Fin 1)"
    by (rule zero_or_nan_neq)
  show "\<not> isFinite (y d)"
    using h by (simp add: d_def getDelta_def Let_def nonfinite_x)
qed

text \<open>
  At a start rect of width 0 and a target of width 50, \<open>scaleX\<close> is \<open>Infinity\<close>,
  \<open>inverseScaleX\<close> is 0 and \<open>x\<close> is \<open>Infinity\<close>.
\<close>

theorem zero_width_counterexample:
  "is_zero (width (rect flat_start))
   \<and> scaleX (getDelta origin_50_25 flat_start example_end) = PosInf
   \<and> inverseScaleX (getDelta origin_50_25 flat_start example_end) = Fin 0
   \<and> x (getDelta origin_50_25 flat_start example_end) = PosInf
   \<and> \<not> num_eq (scaleX (getDelta origin_50_25 flat_start example_end)) (Fin 1)
   \<and> \<not> num_eq (inverseScaleX (getDelta origin_50_25 flat_start example_end)) (Fin 1)"
  by (simp add: getDelta_def examples num_eval Let_def)

theorem zero_start_dimension_not_clamped_witness:
  "is_zero (width (rect flat_box)) \<and> is_zero (height (rect flat_box))
   \<and> \<not> isFinite (scaleX (getDelta origin_50_25 flat_box example_end))
   \<and> \<not> isFinite (x (getDelta origin_50_25 flat_box example_end))
   \<and> \<not> isFinite (scaleY (getDelta origin_50_25 flat_box example_end))
   \<and> \<not> isFinite (y (getDelta origin_50_25 flat_box example_end))"
proof -
  have z: "is_zero (width (rect flat_box))" "is_zero (height (rect flat_box))"
    by (simp_all add: flat_box_def snapshot_def num_test_eval)
  with zero_start_dimension_not_clamped
    [where start = flat_box and end' = example_end and parse = origin_50_25]
  show ?thesis by simp
qed

subsection \<open>Inputs of ordinary magnitude\<close>

text \<open>One axis of the computation, on inputs of ordinary magnitude.\<close>

lemma axis_magnitudes:
  assumes n: "between (- 100) 100 n"
    and ew: "between (- 100) 100 ew" "positive ew" and sw: "between (- 100) 100 sw" "positive sw"
    and og: "at_most 100 og" and el: "at_most 100 el" and sl: "at_most 100 sl"
  defines "s \<equiv> num_div (num_mul n ew) sw"
  defines "i \<equiv> num_div (Fin 1) s"
  defines "t \<equiv> num_add (num_sub el sl)
                 (num_mul (num_mul n (num_div og sw)) (num_mul ew (num_sub (Fin 1) i)))"
  shows "between (- 300) 300 s" and "positive s = positive n"
    and "between (- 300) 300 i" and "at_most 702 t"
proof -
  have p: "between (- 100 + - 100) (100 + 100) (num_mul n ew)"
    and pp: "positive (num_mul n ew) = (positive n = positive ew)"
    using n ew(1) by (rule mul_between; simp)+
  have s: "between (- 100 + - 100 - 100) (100 + 100 - - 100) s"
    and sp: "positive s = (positive (num_mul n ew) = positive sw)"
    unfolding s_def using p sw(1) by (rule div_between; simp)+
  show s': "between (- 300) 300 s" using s by simp
  show "positive s = positive n" using sp pp ew(2) sw(2) by simp
  have "between (0 - 300) (0 - - 300) i"
    unfolding i_def using one_between s' by (rule div_between) simp_all
  then show i: "between (- 300) 300 i" by simp
  have "at_most 300 (Fin 1)"
    by (rule at_most_mono [OF between_at_most [OF one_between]]) simp
  then have "at_most (300 + 1) (num_sub (Fin 1) i)"
    using between_at_most [OF i] by (rule sub_at_most) simp_all
  then have b: "at_most (100 + (300 + 1)) (num_mul ew (num_sub (Fin 1) i))"
    using between_at_most [OF ew(1)] by (intro mul_at_most) simp_all
  have c: "at_most (100 - - 100) (num_div og sw)"
    using og sw(1) by (rule div_at_most) simp_all
  have c': "at_most (100 + (100 - - 100)) (num_mul n (num_div og sw))"
    using between_at_most [OF n] c by (rule mul_at_most) simp_all
  have D: "at_most (100 + (100 - - 100) + (100 + (300 + 1)))
            (num_mul (num_mul n (num_div og sw)) (num_mul ew (num_sub (Fin 1) i)))"
    using c' b by (rule mul_at_most) simp_all
  have "at_most (100 + 1) (num_sub el sl)" using el sl by (rule sub_at_most) simp_all
  then have t: "at_most 701 (num_sub el sl)" by (rule at_most_mono) simp
  have "at_most (701 + 1) t"
    unfolding t_def using t D by (intro add_at_most) simp_all
  then show "at_most 702 t" by simp
qed

lemmas thirds = thirds_start_def thirds_end_def origin_1_1_def snapshot_def

lemma ordinary_delta:
  fixes parse :: "string \<Rightarrow> Point"
  assumes "ordinary_rect (rect start)" and "ordinary_rect (rect end')"
    and "ordinary_point (parse (getStyle start ''transformOrigin''))"
    and "between (- 100) 100 (naturalToCloneScale start)"
  shows "finite_delta (getDelta parse start end')"
    and "positive (scaleX (getDelta parse start end')) = positive (naturalToCloneScale start)"
    and "positive (scaleY (getDelta parse start end')) = positive (naturalToCloneScale start)"
proof -
  have S: "at_most 100 (left (rect start))" "at_most 100 (top_px (rect start))"
      "between (- 100) 100 (width (rect start))" "positive (width (rect start))"
      "between (- 100) 100 (height (rect start))" "positive (height (rect start))"
    using assms(1) by (simp_all add: ordinary_rect_def)
  have E: "at_most 100 (left (rect end'))" "at_most 100 (top_px (rect end'))"
      "between (- 100) 100 (width (rect end'))" "positive (width (rect end'))"
      "between (- 100) 100 (height (rect end'))" "positive (height (rect end'))"
    using assms(2) by (simp_all add: ordinary_rect_def)
  have P: "at_most 100 (x (parse (getStyle start ''transformOrigin'')))"
      "at_most 100 (y (parse (getStyle start ''transformOrigin'')))"
    using assms(3) by (simp_all add: ordinary_point_def)
  note X = axis_magnitudes [OF assms(4) E(3,4) S(3,4) P(1) E(1) S(1)]
  note Y = axis_magnitudes [OF assms(4) E(5,6) S(5,6) P(2) E(2) S(2)]
  have "isFinite (scaleX (getDelta parse start end'))"
    "isFinite (inverseScaleX (getDelta parse start end'))" "isFinite (x (getDelta parse start end'))"
    using X(1,3,4) by (simp_all add: getDelta_fields between_def at_most_def)
  moreover have "isFinite (scaleY (getDelta parse start end'))"
    "isFinite (inverseScaleY (getDelta parse start end'))" "isFinite (y (getDelta parse start end'))"
    using Y(1,3,4) by (simp_all add: getDelta_fields between_def at_most_def)
  ultimately show "finite_delta (getDelta parse start end')" by (simp add: finite_delta_def)
  show "positive (scaleX (getDelta parse start end')) = positive (naturalToCloneScale start)"
    using X(2) by (simp add: getDelta_fields)
  show "positive (scaleY (getDelta parse start end')) = positive (naturalToCloneScale start)"
    using Y(2) by (simp add: getDelta_fields)
qed

lemmas magnitudes = ordinary_rect_def ordinary_point_def at_most_def between_def p2_def
  power_int_minus_divide

lemma ordinary_examples:
  "ordinary_rect (rect example_start)" "ordinary_rect (rect example_end)"
  "ordinary_point (origin_50_25 s)" "between (- 100) 100 (naturalToCloneScale example_start)"
  "ordinary_rect (rect thirds_start)" "ordinary_rect (rect thirds_end)"
  "ordinary_point (origin_1_1 s)" "naturalToCloneScale thirds_start = Fin 1"
  by (simp_all add: examples thirds magnitudes num_test_eval)

subsection \<open>Overflow\<close>

text \<open>
  A quotient of \<open>2^1024\<close> or more is an infinity. From a box of \<open>2^-600\<close> to a box of
  \<open>2^600\<close>, both doubles, the scales are \<open>Infinity\<close>.
\<close>

lemma round64_overflow:
  assumes "p2 1024 \<le> \<bar>r\<bar>"
  shows "round64 s r = signed_inf (r < 0)"
proof -
  have "p2 1024 \<le> \<bar>nearest r\<bar>" using assms by (rule nearest_lower) simp
  then show ?thesis by (simp add: round64_def Let_def)
qed

lemma huge_ratio:
  assumes a: "between i j a" "positive a" and b: "between k l b" "positive b"
    and big: "1024 \<le> i - l"
  shows "num_div a b = PosInf"
proof -
  have fa: "isFinite a" and fb: "isFinite b" using a b by (simp_all add: between_def)
  have pa: "0 < val a" and pb: "0 < val b" using a(2) b(2) fa fb by (simp_all add: positive_fin)
  have m: "num_div a b = round64 (sign a \<noteq> sign b) (val a / val b)"
    using fa fb between_nonzero [OF b(1)] by (rule fin_div)
  have "p2 1024 \<le> p2 (i - l)" using big by (simp only: p2_le_iff)
  also have "\<dots> \<le> \<bar>val a / val b\<bar>" using a(1) b(1) by (rule quotient_lower)
  finally have "round64 (sign a \<noteq> sign b) (val a / val b) = signed_inf (val a / val b < 0)"
    by (rule round64_overflow)
  moreover have "\<not> val a / val b < 0" using pa pb by (simp add: not_less)
  ultimately show ?thesis by (simp add: m signed_inf_def)
qed

lemma p2_600: "p2 600 = 2 ^ 600" "p2 (- 600) = 1 / 2 ^ 600"
  using p2_nat [of 600] p2_neg [of 600] by simp_all

lemma overflowing_scale:
  "scaleX (getDelta parse narrow_start wide_end) = PosInf"
  "scaleY (getDelta parse narrow_start wide_end) = PosInf"
proof -
  have e: "between 600 600 (Fin (2 ^ 600))" "positive (Fin (2 ^ 600))"
    and s: "between (- 600) (- 600) (Fin (1 / 2 ^ 600))" "positive (Fin (1 / 2 ^ 600))"
    by (simp_all add: between_def p2_600 num_test_eval)
  have m: "between (0 + 600) (0 + 600) (num_mul (Fin 1) (Fin (2 ^ 600)))"
    and p: "positive (num_mul (Fin 1) (Fin (2 ^ 600))) = (positive (Fin 1) = positive (Fin (2 ^ 600)))"
    using one_between e(1) by (rule mul_between; simp)+
  have p': "positive (num_mul (Fin 1) (Fin (2 ^ 600)))" using p e(2) by (simp add: num_test_eval)
  have "num_div (num_mul (Fin 1) (Fin (2 ^ 600))) (Fin (1 / 2 ^ 600)) = PosInf"
    using m p' s by (rule huge_ratio) simp
  then show "scaleX (getDelta parse narrow_start wide_end) = PosInf"
    "scaleY (getDelta parse narrow_start wide_end) = PosInf"
    by (simp_all add: getDelta_fields narrow_start_def wide_end_def snapshot_def)
qed

subsection \<open>A scale and its inverse\<close>

text \<open>
  The product of a double and its reciprocal, as computed, need not be 1: \<open>1 / 49\<close> is
  rounded, and \<open>49 * (1 / 49)\<close> is \<open>1 - 2^-53\<close>, which prints as \<open>0.9999999999999999\<close>.
\<close>

lemma product_rounds:
  "num_div (Fin 1) (Fin 49) = Fin (5882252574524729 / 288230376151711744)"
  "num_mul (Fin 49) (num_div (Fin 1) (Fin 49)) = Fin (9007199254740991 / 9007199254740992)"
  by (simp_all add: num_eval)

text \<open>
  C5, as the code has it. Where the computed \<open>scaleX\<close> is a finite number of a magnitude
  from \<open>2^-1022\<close> to \<open>2^1022\<close>, the product of \<open>scaleX\<close> and \<open>inverseScaleX\<close> is finite and
  within \<open>2^-52\<close>, which is \<open>Number.EPSILON\<close>, of 1; likewise for \<open>scaleY\<close>. The scales are
  of this magnitude where the widths and heights of both rects are strictly positive with
  a magnitude from \<open>2^-100\<close> to \<open>2^100\<close>, their lefts and tops have a magnitude up to
  \<open>2^100\<close>, and the magnitude of \<open>naturalToCloneScale\<close> is from \<open>2^-100\<close> to \<open>2^100\<close>.
\<close>

theorem inverse_consistency:
  fixes parse :: "string \<Rightarrow> Point" and start end' :: IllusoryElement
  defines "d \<equiv> getDelta parse start end'"
  shows "(between (- 1022) 1022 (scaleX d) \<longrightarrow> near_one (num_mul (scaleX d) (inverseScaleX d)))
       \<and> (between (- 1022) 1022 (scaleY d) \<longrightarrow> near_one (num_mul (scaleY d) (inverseScaleY d)))
       \<and> (ordinary_rect (rect start) \<and> ordinary_rect (rect end')
            \<and> between (- 100) 100 (naturalToCloneScale start)
          \<longrightarrow> between (- 1022) 1022 (scaleX d) \<and> between (- 1022) 1022 (scaleY d))"
proof (intro conjI impI)
  assume "between (- 1022) 1022 (scaleX d)"
  then show "near_one (num_mul (scaleX d) (inverseScaleX d))"
    unfolding d_def getDelta_fields(3) near_one_def between_def
    using inverse_product by blast
next
  assume "between (- 1022) 1022 (scaleY d)"
  then show "near_one (num_mul (scaleY d) (inverseScaleY d))"
    unfolding d_def getDelta_fields(4) near_one_def between_def
    using inverse_product by blast
next
  assume a: "ordinary_rect (rect start) \<and> ordinary_rect (rect end')
            \<and> between (- 100) 100 (naturalToCloneScale start)"
  then have S: "between (- 100) 100 (width (rect start))" "between (- 100) 100 (height (rect start))"
    and E: "between (- 100) 100 (width (rect end'))" "between (- 100) 100 (height (rect end'))"
    and n: "between (- 100) 100 (naturalToCloneScale start)"
    by (simp_all add: ordinary_rect_def)
  have "between (- 100 + - 100 - 100) (100 + 100 - - 100) (scaleX d)"
    unfolding d_def getDelta_fields
    by (rule div_between [OF mul_between(1) [OF n E(1)] S(1)]) simp_all
  then show "between (- 1022) 1022 (scaleX d)" by (rule between_mono) simp_all
  have "between (- 100 + - 100 - 100) (100 + 100 - - 100) (scaleY d)"
    unfolding d_def getDelta_fields
    by (rule div_between [OF mul_between(1) [OF n E(2)] S(2)]) simp_all
  then show "between (- 1022) 1022 (scaleY d)" by (rule between_mono) simp_all
qed

text \<open>
  With \<open>naturalToCloneScale: 0\<close> the scale is 0 and its inverse \<open>Infinity\<close>: their product
  is \<open>NaN\<close>. From a box of \<open>2^-600\<close> to a box of \<open>2^600\<close> with \<open>naturalToCloneScale: 1\<close>
  the scale is \<open>Infinity\<close> and its inverse 0: their product is \<open>NaN\<close>.
\<close>

theorem inverse_consistency_counterexample:
  "nondegenerate (rect unscaled_start) \<and> nondegenerate (rect example_end)
   \<and> scaleX (getDelta origin_50_25 unscaled_start example_end) = Fin 0
   \<and> inverseScaleX (getDelta origin_50_25 unscaled_start example_end) = PosInf
   \<and> num_mul (scaleX (getDelta origin_50_25 unscaled_start example_end))
             (inverseScaleX (getDelta origin_50_25 unscaled_start example_end)) = NaN
   \<and> nondegenerate (rect narrow_start) \<and> nondegenerate (rect wide_end)
   \<and> naturalToCloneScale narrow_start = Fin 1
   \<and> scaleX (getDelta origin_50_25 narrow_start wide_end) = PosInf
   \<and> inverseScaleX (getDelta origin_50_25 narrow_start wide_end) = Fin 0
   \<and> num_mul (scaleX (getDelta origin_50_25 narrow_start wide_end))
             (inverseScaleX (getDelta origin_50_25 narrow_start wide_end)) = NaN
   \<and> \<not> near_one NaN"
proof -
  have "nondegenerate (rect unscaled_start) \<and> nondegenerate (rect example_end)
   \<and> scaleX (getDelta origin_50_25 unscaled_start example_end) = Fin 0
   \<and> inverseScaleX (getDelta origin_50_25 unscaled_start example_end) = PosInf
   \<and> num_mul (scaleX (getDelta origin_50_25 unscaled_start example_end))
             (inverseScaleX (getDelta origin_50_25 unscaled_start example_end)) = NaN"
    by (simp add: getDelta_def unscaled_start_def examples nondegenerate_def finite_rect_def
        num_eval)
  moreover have "nondegenerate (rect narrow_start) \<and> nondegenerate (rect wide_end)
      \<and> naturalToCloneScale narrow_start = Fin 1"
    by (simp add: narrow_start_def wide_end_def snapshot_def nondegenerate_def finite_rect_def
        num_test_eval)
  moreover have "scaleX (getDelta origin_50_25 narrow_start wide_end) = PosInf
   \<and> inverseScaleX (getDelta origin_50_25 narrow_start wide_end) = Fin 0
   \<and> num_mul (scaleX (getDelta origin_50_25 narrow_start wide_end))
             (inverseScaleX (getDelta origin_50_25 narrow_start wide_end)) = NaN"
    by (simp add: getDelta_fields(3) overflowing_scale num_div_special num_mul_special
        signed_zero_def)
  moreover have "\<not> near_one NaN" by (simp add: near_one_def num_test_eval)
  ultimately show ?thesis by blast
qed

theorem inverse_consistency_witness:
  "ordinary_rect (rect example_start) \<and> ordinary_rect (rect example_end)
   \<and> between (- 100) 100 (naturalToCloneScale example_start)
   \<and> between (- 1022) 1022 (scaleX (getDelta origin_50_25 example_start example_end))
   \<and> between (- 1022) 1022 (scaleY (getDelta origin_50_25 example_start example_end))
   \<and> near_one (num_mul (scaleX (getDelta origin_50_25 example_start example_end))
                       (inverseScaleX (getDelta origin_50_25 example_start example_end)))
   \<and> near_one (num_mul (scaleY (getDelta origin_50_25 example_start example_end))
                       (inverseScaleY (getDelta origin_50_25 example_start example_end)))"
  using ordinary_examples(1,2,4)
    inverse_consistency [where parse = origin_50_25 and start = example_start and end' = example_end]
  by simp

subsection \<open>Finite fields and positive scales\<close>

text \<open>
  C6, as the code has it. For rects whose widths and heights are strictly positive with
  a magnitude from \<open>2^-100\<close> to \<open>2^100\<close> and whose lefts and tops have a magnitude up to
  \<open>2^100\<close>, an origin of a magnitude up to \<open>2^100\<close>, and a \<open>naturalToCloneScale\<close> of a
  magnitude from \<open>2^-100\<close> to \<open>2^100\<close>, all six fields of the delta are finite, and each
  scale is strictly positive exactly when \<open>naturalToCloneScale\<close> is.
\<close>

theorem finite_delta_positive_scales:
  fixes parse :: "string \<Rightarrow> Point"
  assumes "ordinary_rect (rect start)" and "ordinary_rect (rect end')"
    and "ordinary_point (parse (getStyle start ''transformOrigin''))"
    and "between (- 100) 100 (naturalToCloneScale start)"
  defines "d \<equiv> getDelta parse start end'"
  shows "finite_delta d
       \<and> positive (scaleX d) = positive (naturalToCloneScale start)
       \<and> positive (scaleY d) = positive (naturalToCloneScale start)"
  unfolding d_def using ordinary_delta [where parse = parse, OF assms(1-4)] by simp

text \<open>
  With \<open>naturalToCloneScale: 0\<close> and the rects of the scenario, \<open>x\<close> and \<open>y\<close> are \<open>NaN\<close>,
  both inverse scales are \<open>Infinity\<close> and both scales are 0. From a box of \<open>2^-600\<close> to a
  box of \<open>2^600\<close> with \<open>naturalToCloneScale: 1\<close>, \<open>scaleX\<close> is \<open>Infinity\<close>.
\<close>

theorem finite_delta_positive_scales_counterexample:
  "nondegenerate (rect unscaled_start) \<and> nondegenerate (rect example_end)
   \<and> getDelta origin_50_25 unscaled_start example_end
     = \<lparr> x = NaN, y = NaN, scaleX = Fin 0, scaleY = Fin 0,
         inverseScaleX = PosInf, inverseScaleY = PosInf \<rparr>
   \<and> \<not> finite_delta (getDelta origin_50_25 unscaled_start example_end)
   \<and> \<not> positive (scaleX (getDelta origin_50_25 unscaled_start example_end))
   \<and> nondegenerate (rect narrow_start) \<and> nondegenerate (rect wide_end)
   \<and> naturalToCloneScale narrow_start = Fin 1
   \<and> scaleX (getDelta origin_50_25 narrow_start wide_end) = PosInf
   \<and> \<not> finite_delta (getDelta origin_50_25 narrow_start wide_end)"
proof -
  have "nondegenerate (rect unscaled_start) \<and> nondegenerate (rect example_end)
   \<and> getDelta origin_50_25 unscaled_start example_end
     = \<lparr> x = NaN, y = NaN, scaleX = Fin 0, scaleY = Fin 0,
         inverseScaleX = PosInf, inverseScaleY = PosInf \<rparr>
   \<and> \<not> finite_delta (getDelta origin_50_25 unscaled_start example_end)
   \<and> \<not> positive (scaleX (getDelta origin_50_25 unscaled_start example_end))"
    by (simp add: getDelta_def unscaled_start_def examples nondegenerate_def finite_rect_def
        finite_delta_def num_eval)
  moreover have "nondegenerate (rect narrow_start) \<and> nondegenerate (rect wide_end)
      \<and> naturalToCloneScale narrow_start = Fin 1"
    by (simp add: narrow_start_def wide_end_def snapshot_def nondegenerate_def finite_rect_def
        num_test_eval)
  moreover have "scaleX (getDelta origin_50_25 narrow_start wide_end) = PosInf
      \<and> \<not> finite_delta (getDelta origin_50_25 narrow_start wide_end)"
    by (simp add: overflowing_scale finite_delta_def num_test_eval)
  ultimately show ?thesis by blast
qed

theorem finite_delta_positive_scales_witness:
  "ordinary_rect (rect example_start) \<and> ordinary_rect (rect example_end)
   \<and> ordinary_point (origin_50_25 (getStyle example_start ''transformOrigin''))
   \<and> between (- 100) 100 (naturalToCloneScale example_start)
   \<and> positive (naturalToCloneScale example_start)
   \<and> finite_delta (getDelta origin_50_25 example_start example_end)
   \<and> positive (scaleX (getDelta origin_50_25 example_start example_end))
   \<and> positive (scaleY (getDelta origin_50_25 example_start example_end))"
proof -
  have p: "positive (naturalToCloneScale example_start)"
    by (simp add: examples num_test_eval)
  from p ordinary_examples(1-4)
    finite_delta_positive_scales [where parse = origin_50_25, OF ordinary_examples(1-4)]
  show ?thesis by simp
qed

subsection \<open>The pivot\<close>

lemma p2_small: "p2 (- 6) = 1 / 64" "p2 6 = 64" "p2 7 = 128" "p2 2 = 4"
  by (simp_all add: p2_def power_int_minus_divide)

lemma p2_mult_le:
  assumes "0 \<le> v" and "v \<le> p2 a" and "a + b \<le> c"
  shows "v * p2 b \<le> p2 c"
proof -
  have "v * p2 b \<le> p2 a * p2 b" using assms(2) p2_nonneg [of b] by (rule mult_right_mono)
  also have "\<dots> = p2 (a + b)" by (simp add: p2_add)
  also have "\<dots> \<le> p2 c" using assms(3) by (simp only: p2_le_iff)
  finally show ?thesis .
qed

text \<open>
  One axis on the numbers: each operation of \<open>getDelta\<close> returns the nearest double of
  its exact result, and the errors add up to no more than the slack.
\<close>

lemma axis_pivot:
  assumes ew: "between (- 100) 100 ew" "positive ew" and sw: "between (- 100) 100 sw" "positive sw"
    and og: "at_most 100 og" and el: "at_most 100 el" and sl: "at_most 100 sl"
  defines "s \<equiv> num_div (num_mul (Fin 1) ew) sw"
  defines "i \<equiv> num_div (Fin 1) s"
  defines "t \<equiv> num_add (num_sub el sl)
                 (num_mul (num_mul (Fin 1) (num_div og sw)) (num_mul ew (num_sub (Fin 1) i)))"
  shows "\<bar>val sl + (val t + val og + val s * (0 - val og)) - val el\<bar> \<le> slack sl sw el ew og"
    and "\<bar>val sl + (val t + val og + val s * (val sw - val og)) - (val el + val ew)\<bar>
           \<le> slack sl sw el ew og"
proof -
  define u where "u = p2 (- 53)"
  define h where "h = p2 (- 1075)"
  define T where "T = p2 (- 975)"
  define T2 where "T2 = p2 (- 775)"
  have one: "val (Fin 1) = 1" by (simp add: num_test_eval)
  have n0: "at_most 0 (Fin 1)" by (rule between_at_most [OF one_between])
  have n: "between (- 100) 100 (Fin 1)" by (rule between_mono [OF one_between]) simp_all
  have n1: "at_most 100 (Fin 1)" by (rule between_at_most [OF n])
  have few: "isFinite ew" and fsw: "isFinite sw" using ew sw by (simp_all add: between_def)
  have pew: "0 < val ew" and psw: "0 < val sw" using ew(2) sw(2) few fsw by (simp_all add: positive_fin)
  have ewhi: "val ew \<le> p2 100" and swhi: "val sw \<le> p2 100" and swlo: "p2 (- 100) \<le> val sw"
    and ewlo: "p2 (- 100) \<le> val ew"
    using ew(1) sw(1) pew psw by (simp_all add: between_def)
  have oghi: "\<bar>val og\<bar> \<le> p2 100" using og by (simp add: at_most_def)
  \<comment> \<open>the intermediate values\<close>
  define m where "m = num_mul (Fin 1) ew"
  have mb: "between (- 100 + - 100) (100 + 100) m" and mp: "positive m = (positive (Fin 1) = positive ew)"
    unfolding m_def using n ew(1) by (rule mul_between; simp)+
  have mv: "val m = nearest (val ew)"
    unfolding m_def using mul_val [OF n1 between_at_most [OF ew(1)]] by (simp add: one)
  have sb: "between (- 100 + - 100 - 100) (100 + 100 - - 100) s"
    unfolding s_def m_def [symmetric] using mb sw(1) by (rule div_between) simp_all
  have sv: "val s = nearest (val m / val sw)"
    unfolding s_def m_def [symmetric] using between_at_most [OF mb] sw(1) by (rule div_val) simp_all
  have s': "between (- 300) 300 s" using sb by simp
  have ib: "between (0 - 300) (0 - - 300) i"
    unfolding i_def using one_between s' by (rule div_between) simp_all
  have iv: "val i = nearest (1 / val s)"
    unfolding i_def using div_val [OF n0 s'] by (simp add: one)
  have i': "between (- 300) 300 i" using ib by simp
  define a where "a = num_sub (Fin 1) i"
  have n300: "at_most 300 (Fin 1)" by (rule at_most_mono [OF n0]) simp
  have ab: "at_most (300 + 1) a"
    unfolding a_def using n300 between_at_most [OF i'] by (rule sub_at_most) simp_all
  have av: "val a = nearest (1 - val i)"
    unfolding a_def using sub_val [OF n300 between_at_most [OF i']] by (simp add: one)
  define b where "b = num_mul ew a"
  have bb: "at_most (100 + (300 + 1)) b"
    unfolding b_def using between_at_most [OF ew(1)] ab by (rule mul_at_most) simp_all
  have bv: "val b = nearest (val ew * val a)"
    unfolding b_def using between_at_most [OF ew(1)] ab by (rule mul_val) simp_all
  define c where "c = num_div og sw"
  have cb: "at_most (100 - - 100) c"
    unfolding c_def using og sw(1) by (rule div_at_most) simp_all
  have cv: "val c = nearest (val og / val sw)"
    unfolding c_def using og sw(1) by (rule div_val) simp_all
  define c' where "c' = num_mul (Fin 1) c"
  have c'b: "at_most (100 + (100 - - 100)) c'"
    unfolding c'_def using n1 cb by (rule mul_at_most) simp_all
  have c'v: "val c' = nearest (val c)"
    unfolding c'_def using mul_val [OF n1 cb] by (simp add: one)
  define D where "D = num_mul c' b"
  have Db: "at_most (100 + (100 - - 100) + (100 + (300 + 1))) D"
    unfolding D_def using c'b bb by (rule mul_at_most) simp_all
  have Dv: "val D = nearest (val c' * val b)"
    unfolding D_def using c'b bb by (rule mul_val) simp_all
  define d where "d = num_sub el sl"
  have db: "at_most (100 + 1) d" unfolding d_def using el sl by (rule sub_at_most) simp_all
  have dv: "val d = nearest (val el - val sl)"
    unfolding d_def using el sl by (rule sub_val) simp_all
  have d701: "at_most 701 d" using db by (rule at_most_mono) simp
  have D701: "at_most 701 D" using Db by simp
  have t: "t = num_add d D" by (simp add: t_def d_def D_def c'_def c_def b_def a_def)
  have tv: "val t = nearest (val d + val D)"
    unfolding t using d701 D701 by (rule add_val) simp_all
  \<comment> \<open>the errors of the roundings\<close>
  have u: "0 < u" "u \<le> 1 / 64"
    using p2_le_iff [of "- 53" "- 6"] by (simp_all add: u_def p2_pos p2_small)
  have f1: "isFinite (Fin 1)" using n0 by (simp add: at_most_def)
  have p1: "positive (Fin 1)" using f1 by (simp add: positive_fin one)
  have fm: "isFinite m" using mb by (simp add: between_def)
  have "positive m" using mp p1 ew(2) by simp
  then have mpos: "0 < val m" using fm by (simp add: positive_fin)
  have "p2 (- 1022) \<le> p2 (- 100)" by (simp add: p2_le_iff)
  then have "p2 (- 1022) \<le> \<bar>val ew\<bar>" using ewlo pew by linarith
  then have "\<bar>nearest (val ew) - val ew\<bar> \<le> \<bar>val ew\<bar> * p2 (- 53)" by (rule nearest_relative)
  then have r0: "\<bar>val m - val ew\<bar> \<le> u * val ew" using pew by (simp add: mv u_def mult.commute)
  have "p2 (- 1022) \<le> p2 (- 100 + - 100 - 100)" by (simp add: p2_le_iff)
  also have "\<dots> \<le> \<bar>val m / val sw\<bar>" using mb sw(1) by (rule quotient_lower)
  finally have "\<bar>nearest (val m / val sw) - val m / val sw\<bar> \<le> \<bar>val m / val sw\<bar> * p2 (- 53)"
    by (rule nearest_relative)
  then have r1: "\<bar>val s - val m / val sw\<bar> \<le> u * (val m / val sw)"
    using mpos psw by (simp add: sv u_def mult.commute)
  have spos: "0 < val s" by (rule scale_error(3) [OF u pew psw r0 r1])
  have "p2 (- 1022) \<le> p2 (0 - 300)" by (simp add: p2_le_iff)
  also have "\<dots> \<le> \<bar>val (Fin 1) / val s\<bar>" using one_between s' by (rule quotient_lower)
  finally have "\<bar>nearest (1 / val s) - 1 / val s\<bar> \<le> \<bar>1 / val s\<bar> * p2 (- 53)"
    unfolding one by (rule nearest_relative)
  then have r2: "\<bar>val i - 1 / val s\<bar> \<le> u * (1 / val s)"
    using spos by (simp add: iv u_def mult.commute)
  have r3: "\<bar>val a - (1 - val i)\<bar> \<le> u * \<bar>1 - val i\<bar> + h"
    using nearest_mixed [of "1 - val i"] by (simp add: av u_def h_def mult.commute)
  have r4: "\<bar>val b - val ew * val a\<bar> \<le> u * \<bar>val ew * val a\<bar> + h"
    using nearest_mixed [of "val ew * val a"] by (simp only: bv u_def h_def mult.commute)
  have r5: "\<bar>val c - val og / val sw\<bar> \<le> u * \<bar>val og / val sw\<bar> + h"
    using nearest_mixed [of "val og / val sw"] by (simp only: cv u_def h_def mult.commute)
  have r6: "\<bar>val c' - val c\<bar> \<le> u * \<bar>val c\<bar> + h"
    using nearest_mixed [of "val c"] by (simp only: c'v u_def h_def mult.commute)
  have r7: "\<bar>val D - val c' * val b\<bar> \<le> u * \<bar>val c' * val b\<bar> + h"
    using nearest_mixed [of "val c' * val b"] by (simp only: Dv u_def h_def mult.commute)
  have r8: "\<bar>val d - (val el - val sl)\<bar> \<le> u * \<bar>val el - val sl\<bar> + h"
    using nearest_mixed [of "val el - val sl"] by (simp only: dv u_def h_def mult.commute)
  have r9: "\<bar>val t - (val d + val D)\<bar> \<le> u * \<bar>val d + val D\<bar> + h"
    using nearest_mixed [of "val d + val D"] by (simp only: tv u_def h_def mult.commute)
  \<comment> \<open>the small terms\<close>
  have h0: "0 \<le> h" by (simp add: h_def p2_nonneg)
  have h1: "h \<le> T" by (simp add: h_def T_def p2_le_iff)
  have h2: "val ew * h \<le> T" unfolding h_def T_def using pew ewhi by (intro p2_mult_le [where a = 100]) simp_all
  have h3: "T \<le> T2" by (simp add: T_def T2_def p2_le_iff)
  have "\<bar>val og / val sw\<bar> \<le> p2 (100 - - 100)"
    unfolding p2_diff abs_divide using oghi swlo psw p2_pos [of "- 100"]
    by (intro frac_le) simp_all
  then have h4: "\<bar>val og / val sw\<bar> * T \<le> T2"
    unfolding T_def T2_def by (intro p2_mult_le [where a = "100 - - 100"]) simp_all
  have "val ew + 2 * val sw \<le> p2 100 + 2 * p2 100" using ewhi swhi by linarith
  also have "\<dots> \<le> p2 (100 + 2)" unfolding p2_add by (simp add: p2_small p2_nonneg)
  finally have "(val ew + 2 * val sw) * h \<le> T2"
    unfolding h_def T2_def using pew psw by (intro p2_mult_le [where a = "100 + 2"]) simp_all
  then have h5: "h * (val ew + 2 * val sw) \<le> T2" by (simp add: mult.commute)
  have "h * T \<le> T2"
    unfolding h_def T_def T2_def using p2_nonneg [of "- 1075"] p2_le_iff [of "- 1075" 0]
    by (intro p2_mult_le [where a = 0]) simp_all
  then have h6: "h * T \<le> T2" .
  have "113 * p2 (- 775) \<le> p2 (- 53)"
    using p2_small(3) by (intro p2_mult_le [where a = 7]) simp_all
  then have h7: "113 * T2 \<le> u" by (simp add: T2_def u_def)
  note P = pivot_axis [OF u h0 h1 h2 h3 h4 h5 h6 h7 pew psw r0 r1 r2 r3 r4 r5 r6 r7 r8 r9]
  have k: "64 * u = p2 (- 47)"
    using p2_add [of 6 "- 53"] by (simp add: u_def p2_small)
  show "\<bar>val sl + (val t + val og + val s * (0 - val og)) - val el\<bar> \<le> slack sl sw el ew og"
    using P(1) unfolding k slack_def .
  show "\<bar>val sl + (val t + val og + val s * (val sw - val og)) - (val el + val ew)\<bar>
           \<le> slack sl sw el ew og"
    using P(2) unfolding k slack_def .
qed

lemma thirds_delta:
  "getDelta origin_1_1 thirds_start thirds_end
     = \<lparr> x = Fin (- 6004799503160661 / 9007199254740992),
         y = Fin (- 6004799503160661 / 9007199254740992),
         scaleX = Fin (6004799503160661 / 18014398509481984),
         scaleY = Fin (6004799503160661 / 18014398509481984),
         inverseScaleX = Fin 3, inverseScaleY = Fin 3 \<rparr>"
  by (simp add: getDelta_def thirds num_eval)

text \<open>
  C3, as the code has it. With \<open>naturalToCloneScale\<close> 1, rects whose widths and heights
  are strictly positive with a magnitude from \<open>2^-100\<close> to \<open>2^100\<close> and whose lefts and
  tops have a magnitude up to \<open>2^100\<close>, and an origin of a magnitude up to \<open>2^100\<close>, the
  delta is finite, and the box of start, scaled about the origin and translated by the
  delta, covers the end rect up to rounding: on each axis its top-left corner lies within
  the tolerance of the top-left corner of end, and its bottom-right corner within the
  tolerance of the bottom-right corner of end. The tolerance is \<open>2^-47\<close> times the sum of
  1, the distance between the two rects, the magnitude of the origin times 1 plus the
  ratio of the extents, and the extent of the end rect.
\<close>

theorem scaling_pivots_up_to_rounding:
  fixes parse :: "string \<Rightarrow> Point"
  assumes "ordinary_rect (rect start)" and "ordinary_rect (rect end')"
    and "ordinary_point (parse (getStyle start ''transformOrigin''))"
    and "naturalToCloneScale start = Fin 1"
  defines "d \<equiv> getDelta parse start end'"
  defines "origin \<equiv> parse (getStyle start ''transformOrigin'')"
  defines "tol \<equiv> tolerance (rect start) (rect end') origin"
  shows "finite_delta d
       \<and> close_to tol (on_screen (rect start) (transformed d origin (0, 0))) (top_left (rect end'))
       \<and> close_to tol
            (on_screen (rect start)
               (transformed d origin (val (width (rect start)), val (height (rect start)))))
            (bottom_right (rect end'))"
proof -
  have S: "at_most 100 (left (rect start))" "at_most 100 (top_px (rect start))"
      "between (- 100) 100 (width (rect start))" "positive (width (rect start))"
      "between (- 100) 100 (height (rect start))" "positive (height (rect start))"
    using assms(1) by (simp_all add: ordinary_rect_def)
  have E: "at_most 100 (left (rect end'))" "at_most 100 (top_px (rect end'))"
      "between (- 100) 100 (width (rect end'))" "positive (width (rect end'))"
      "between (- 100) 100 (height (rect end'))" "positive (height (rect end'))"
    using assms(2) by (simp_all add: ordinary_rect_def)
  have P: "at_most 100 (x origin)" "at_most 100 (y origin)"
    using assms(3) by (simp_all add: ordinary_point_def origin_def)
  have n: "between (- 100) 100 (naturalToCloneScale start)"
    unfolding assms(4) by (rule between_mono [OF one_between]) simp_all
  have f: "finite_delta d"
    unfolding d_def using assms(1-3) n by (rule ordinary_delta)
  note X = axis_pivot [OF E(3,4) S(3,4) P(1) E(1) S(1)]
  note Y = axis_pivot [OF E(5,6) S(5,6) P(2) E(2) S(2)]
  have dx: "x d = num_add (num_sub (left (rect end')) (left (rect start)))
       (num_mul (num_mul (Fin 1) (num_div (x origin) (width (rect start))))
          (num_mul (width (rect end'))
             (num_sub (Fin 1) (num_div (Fin 1)
                (num_div (num_mul (Fin 1) (width (rect end'))) (width (rect start)))))))"
    and sx: "scaleX d = num_div (num_mul (Fin 1) (width (rect end'))) (width (rect start))"
    and dy: "y d = num_add (num_sub (top_px (rect end')) (top_px (rect start)))
       (num_mul (num_mul (Fin 1) (num_div (y origin) (height (rect start))))
          (num_mul (height (rect end'))
             (num_sub (Fin 1) (num_div (Fin 1)
                (num_div (num_mul (Fin 1) (height (rect end'))) (height (rect start)))))))"
    and sy: "scaleY d = num_div (num_mul (Fin 1) (height (rect end'))) (height (rect start))"
    by (simp_all add: d_def origin_def getDelta_fields assms(4))
  have tl: "close_to tol (on_screen (rect start) (transformed d origin (0, 0))) (top_left (rect end'))"
    using X(1) Y(1)
    by (simp add: close_to_def tol_def tolerance_def on_screen_def transformed_def top_left_def
        dx sx dy sy)
  have br: "close_to tol
            (on_screen (rect start)
               (transformed d origin (val (width (rect start)), val (height (rect start)))))
            (bottom_right (rect end'))"
    using X(2) Y(2)
    by (simp add: close_to_def tol_def tolerance_def on_screen_def transformed_def bottom_right_def
        dx sx dy sy)
  from f tl br show ?thesis by blast
qed

text \<open>
  From the box (0, 0, 3, 3) to the box (0, 0, 1, 1) with the origin (1, 1), \<open>getDelta\<close>
  returns \<open>x = -0.6666666666666666\<close> and \<open>scaleX = 0.3333333333333333\<close>, and the top-left
  corner of start lands at \<open>2^-54\<close> on each axis, not on the corner (0, 0) of end. From a
  box of \<open>2^-600\<close> to a box of \<open>2^600\<close> the delta is not finite.
\<close>

theorem scaling_pivots_at_origin_counterexample:
  "nondegenerate (rect thirds_start) \<and> nondegenerate (rect thirds_end)
   \<and> naturalToCloneScale thirds_start = Fin 1
   \<and> getDelta origin_1_1 thirds_start thirds_end
     = \<lparr> x = Fin (- 6004799503160661 / 9007199254740992),
         y = Fin (- 6004799503160661 / 9007199254740992),
         scaleX = Fin (6004799503160661 / 18014398509481984),
         scaleY = Fin (6004799503160661 / 18014398509481984),
         inverseScaleX = Fin 3, inverseScaleY = Fin 3 \<rparr>
   \<and> on_screen (rect thirds_start)
        (transformed (getDelta origin_1_1 thirds_start thirds_end)
           (origin_1_1 (getStyle thirds_start ''transformOrigin'')) (0, 0))
     = (1 / 18014398509481984, 1 / 18014398509481984)
   \<and> top_left (rect thirds_end) = (0, 0)
   \<and> nondegenerate (rect narrow_start) \<and> nondegenerate (rect wide_end)
   \<and> naturalToCloneScale narrow_start = Fin 1
   \<and> \<not> finite_delta (getDelta origin_1_1 narrow_start wide_end)"
proof -
  have "nondegenerate (rect thirds_start) \<and> nondegenerate (rect thirds_end)
      \<and> naturalToCloneScale thirds_start = Fin 1 \<and> top_left (rect thirds_end) = (0, 0)"
    by (simp add: thirds nondegenerate_def finite_rect_def top_left_def num_test_eval)
  moreover have "on_screen (rect thirds_start)
        (transformed (getDelta origin_1_1 thirds_start thirds_end)
           (origin_1_1 (getStyle thirds_start ''transformOrigin'')) (0, 0))
     = (1 / 18014398509481984, 1 / 18014398509481984)"
    unfolding thirds_delta by (simp add: on_screen_def transformed_def thirds num_test_eval)
  moreover have "nondegenerate (rect narrow_start) \<and> nondegenerate (rect wide_end)
      \<and> naturalToCloneScale narrow_start = Fin 1"
    by (simp add: narrow_start_def wide_end_def snapshot_def nondegenerate_def finite_rect_def
        num_test_eval)
  moreover have "\<not> finite_delta (getDelta origin_1_1 narrow_start wide_end)"
    by (simp add: overflowing_scale finite_delta_def num_test_eval)
  ultimately show ?thesis using thirds_delta by blast
qed

theorem scaling_pivots_up_to_rounding_witness:
  "ordinary_rect (rect thirds_start) \<and> ordinary_rect (rect thirds_end)
   \<and> ordinary_point (origin_1_1 (getStyle thirds_start ''transformOrigin''))
   \<and> naturalToCloneScale thirds_start = Fin 1
   \<and> finite_delta (getDelta origin_1_1 thirds_start thirds_end)
   \<and> close_to (tolerance (rect thirds_start) (rect thirds_end)
                 (origin_1_1 (getStyle thirds_start ''transformOrigin'')))
        (on_screen (rect thirds_start)
           (transformed (getDelta origin_1_1 thirds_start thirds_end)
              (origin_1_1 (getStyle thirds_start ''transformOrigin'')) (0, 0)))
        (top_left (rect thirds_end))
   \<and> close_to (tolerance (rect thirds_start) (rect thirds_end)
                 (origin_1_1 (getStyle thirds_start ''transformOrigin'')))
        (on_screen (rect thirds_start)
           (transformed (getDelta origin_1_1 thirds_start thirds_end)
              (origin_1_1 (getStyle thirds_start ''transformOrigin''))
              (val (width (rect thirds_start)), val (height (rect thirds_start)))))
        (bottom_right (rect thirds_end))"
  using ordinary_examples(5-8)
    scaling_pivots_up_to_rounding [where parse = origin_1_1, OF ordinary_examples(5-8)]
  by blast

section \<open>The pass-through handler\<close>

text \<open>
  C8. The default handler of a property returns the current style string as it is,
  whatever the delta and the computed delta style.
\<close>

theorem pass_through_is_identity:
  "DELTA_PASS_THROUGH_HANDLER delta deltaStyle thisStyle = thisStyle"
  by (simp add: DELTA_PASS_THROUGH_HANDLER_def)

section \<open>Purity\<close>

lemma getDelta_st_eq: "getDelta_st parse s e h = (getDelta parse (h s) (h e), h)"
  by (simp add: getDelta_st_def getStyle_st_def getDelta_def Let_def)

lemma getDelta_observables:
  assumes "same_observables (a, b) (c, d)"
  shows "getDelta parse a b = getDelta parse c d"
  using assms by (simp add: same_observables_def getDelta_def Let_def)

text \<open>
  C9. \<open>getDelta\<close> is pure: two runs, on stores and snapshot pairs that agree on both
  rects, on the transform-origin style of start and on the \<open>naturalToCloneScale\<close> of
  start, return the same delta, which is the value of \<open>getDelta\<close> on the two snapshots,
  and each run leaves its store, hence both snapshots, as it found them.
\<close>

theorem getDelta_is_pure:
  assumes "same_observables (ha sa, ha ea) (hb sb, hb eb)"
  shows "fst (getDelta_st parse sa ea ha) = fst (getDelta_st parse sb eb hb)
       \<and> fst (getDelta_st parse sa ea ha) = getDelta parse (ha sa) (ha ea)
       \<and> snd (getDelta_st parse sa ea ha) = ha \<and> snd (getDelta_st parse sb eb hb) = hb"
  using getDelta_observables [OF assms] by (simp add: getDelta_st_eq)

theorem getDelta_is_pure_witness:
  "same_observables (store_a 0, store_a 1) (store_b 5, store_b 2)
   \<and> store_a 0 \<noteq> store_b 5 \<and> store_a 1 \<noteq> store_b 2
   \<and> fst (getDelta_st origin_50_25 0 1 store_a) = fst (getDelta_st origin_50_25 5 2 store_b)
   \<and> snd (getDelta_st origin_50_25 0 1 store_a) = store_a
   \<and> snd (getDelta_st origin_50_25 5 2 store_b) = store_b"
proof -
  have h: "same_observables (store_a 0, store_a 1) (store_b 5, store_b 2)"
    by (simp add: same_observables_def store_a_def store_b_def getStyle_def examples)
  have d: "store_a 0 \<noteq> store_b 5" "store_a 1 \<noteq> store_b 2"
    by (simp_all add: store_a_def store_b_def examples)
  from h d getDelta_is_pure [where parse = origin_50_25 and ha = store_a and sa = 0
      and ea = 1 and hb = store_b and sb = 5 and eb = 2, OF h]
  show ?thesis by simp
qed

section \<open>The default options\<close>

text \<open>
  C10. The global defaults are exactly: in the element tier \<open>includeChildren\<close> true,
  \<open>ignoreTransparency\<close> the list of \<open>img\<close>, \<open>naturalToCloneScale\<close> 1; at the top level
  \<open>zIndex\<close> 1, \<open>compositeOnly\<close> false, \<open>duration\<close> 300ms, \<open>easing\<close> ease and \<open>relativeTo\<close>
  the list of the document. These are all the keys: \<open>preserveDataAttributes\<close>,
  \<open>processClone\<close>, \<open>deltaHandlers\<close> and the hooks are absent.
\<close>

theorem default_options:
  "keys DEFAULT_OPTIONS
     = [''element'', ''zIndex'', ''compositeOnly'', ''duration'', ''easing'', ''relativeTo'']
   \<and> map_option keys (get DEFAULT_OPTIONS ''element'')
     = Some [''includeChildren'', ''ignoreTransparency'', ''naturalToCloneScale'']
   \<and> get_in DEFAULT_OPTIONS [''element'', ''includeChildren''] = Some (Bool True)
   \<and> get_in DEFAULT_OPTIONS [''element'', ''ignoreTransparency''] = Some (Array [Str ''img''])
   \<and> get_in DEFAULT_OPTIONS [''element'', ''naturalToCloneScale''] = Some (Num (Fin 1))
   \<and> get DEFAULT_OPTIONS ''zIndex'' = Some (Num (Fin 1))
   \<and> get DEFAULT_OPTIONS ''compositeOnly'' = Some (Bool False)
   \<and> get DEFAULT_OPTIONS ''duration'' = Some (Str ''300ms'')
   \<and> get DEFAULT_OPTIONS ''easing'' = Some (Str ''ease'')
   \<and> get DEFAULT_OPTIONS ''relativeTo'' = Some (Array [Document])
   \<and> get_in DEFAULT_OPTIONS [''element'', ''preserveDataAttributes''] = None
   \<and> get_in DEFAULT_OPTIONS [''element'', ''processClone''] = None
   \<and> get_in DEFAULT_OPTIONS [''element'', ''attachImmediately''] = None
   \<and> get_in DEFAULT_OPTIONS [''element'', ''deltaHandlers''] = None
   \<and> get DEFAULT_OPTIONS ''deltaHandlers'' = None
   \<and> get DEFAULT_OPTIONS ''beforeAttach'' = None
   \<and> get DEFAULT_OPTIONS ''beforeAnimate'' = None
   \<and> get DEFAULT_OPTIONS ''beforeDetach'' = None"
  by (simp add: DEFAULT_OPTIONS_def)

section \<open>Cleanup\<close>

lemma hook_rejections_append:
  "hook_rejections (l @ m) = hook_rejections l @ hook_rejections m"
  by (induction l rule: hook_rejections.induct) simp_all

lemma run_phase_consistent:
  assumes "consistent t" and "well_behaved step"
  shows "consistent (run_phase t step)"
proof (cases "failure t")
  case (Some e)
  then show ?thesis using assms(1) by (simp add: run_phase_def)
next
  case None
  obtain p f where step: "step = (p, f)" by (cases step)
  obtain r a b where f: "f (from_el t, to_el t) = (r, (a, b))"
    by (metis prod.exhaust)
  have nil: "hook_rejections (trace t) = []"
    using assms(1) None by (auto simp add: consistent_def split: list.splits)
  show ?thesis
  proof (cases r)
    case Resolved
    then show ?thesis
      using assms None step f nil
      by (auto simp add: run_phase_def consistent_def well_behaved_def hook_rejections_append)
  next
    case (Rejected e)
    have "fst (f (from_el t, to_el t)) \<noteq> Resolved"
      using f Rejected by simp
    then have "is_hook p"
      using assms(2) step by (auto simp add: well_behaved_def)
    then show ?thesis
      using assms None step f nil Rejected
      by (auto simp add: run_phase_def consistent_def well_behaved_def hook_rejections_append)
  qed
qed

lemma foldl_consistent:
  assumes "consistent t" and "\<forall>step \<in> set l. well_behaved step"
  shows "consistent (foldl run_phase t l)"
  using assms by (induction l arbitrary: t) (simp_all add: run_phase_consistent)

lemma steps_well_behaved:
  "\<forall>step \<in> set (steps parse render options canceled). well_behaved step"
  by (simp add: steps_def well_behaved_def is_hook_def plain_def)

lemma body_consistent:
  "consistent (foldl run_phase \<lparr> from_el = a, to_el = b, trace = [], failure = None \<rparr>
                 (steps parse render options canceled))"
  by (rule foldl_consistent [OF _ steps_well_behaved]) (simp add: consistent_def)

text \<open>A failure comes from a hook of the options.\<close>

lemma run_phase_failure:
  assumes "failure (run_phase t step) = Some e"
  shows "failure t = Some e \<or> (\<exists>s. fst (snd step s) = Rejected e)"
proof (cases "failure t")
  case (Some e')
  then show ?thesis using assms by (simp add: run_phase_def)
next
  case None
  obtain r a b where f: "snd step (from_el t, to_el t) = (r, (a, b))"
    by (metis prod.exhaust)
  then have "r = Rejected e"
    using assms None by (cases r) (simp_all add: run_phase_def)
  then have "fst (snd step (from_el t, to_el t)) = Rejected e" using f by simp
  then show ?thesis by blast
qed

lemma foldl_failure:
  assumes "failure (foldl run_phase t l) = Some e"
  shows "failure t = Some e \<or> (\<exists>step \<in> set l. \<exists>s. fst (snd step s) = Rejected e)"
  using assms
proof (induction l arbitrary: t)
  case Nil
  then show ?case by simp
next
  case (Cons step l)
  then have "failure (run_phase t step) = Some e
      \<or> (\<exists>step \<in> set l. \<exists>s. fst (snd step s) = Rejected e)"
    by simp
  then show ?case using run_phase_failure [of t step e] by auto
qed

lemma plain_resolves: "fst (plain g s) = Resolved"
  by (simp add: plain_def)

lemma optional_rejects:
  assumes "fst (optional ho s) = Rejected e"
  obtains h where "ho = Some h" and "fst (h s) = Rejected e"
  using assms by (cases ho) (simp_all add: optional_def plain_def)

lemma rejected_byI:
  "h \<in> set hs \<Longrightarrow> fst (h s) = Rejected e \<Longrightarrow> \<exists>h \<in> set hs. \<exists>s. fst (h s) = Rejected e"
  by blast

lemma steps_reject_by_hooks:
  assumes "step \<in> set (steps parse render options canceled)"
    and "fst (snd step s) = Rejected e"
  shows "\<exists>h \<in> set (configured options canceled). \<exists>s. fst (h s) = Rejected e"
proof -
  from assms(1) consider
      (attach) "snd step = optional (beforeAttach options)"
    | (animate) "snd step = optional (beforeAnimate options)"
    | (detach) "snd step = optional (map_option (\<lambda>f. f canceled) (beforeDetach options))"
    | (plain) g where "snd step = plain g"
    by (auto simp add: steps_def)
  then show ?thesis
  proof cases
    case attach
    with assms(2) obtain h where h: "beforeAttach options = Some h" "fst (h s) = Rejected e"
      by (auto elim: optional_rejects)
    show ?thesis
      by (rule rejected_byI [where h = h and s = s]) (simp_all add: configured_def h)
  next
    case animate
    with assms(2) obtain h where h: "beforeAnimate options = Some h" "fst (h s) = Rejected e"
      by (auto elim: optional_rejects)
    show ?thesis
      by (rule rejected_byI [where h = h and s = s]) (simp_all add: configured_def h)
  next
    case detach
    with assms(2) obtain h where h: "map_option (\<lambda>f. f canceled) (beforeDetach options) = Some h"
        "fst (h s) = Rejected e"
      by (auto elim: optional_rejects)
    then obtain f where f: "beforeDetach options = Some f" "h = f canceled" by auto
    show ?thesis
      using h(2) by (intro rejected_byI [where h = h and s = s]) (simp_all add: configured_def f)
  next
    case plain
    with assms(2) show ?thesis by (simp add: plain_resolves)
  qed
qed

lemma foldl_failed: "failure t = Some e \<Longrightarrow> foldl run_phase t l = t"
  by (induction l) (simp_all add: run_phase_def)

text \<open>The outcome of a run is the outcome of its hooks.\<close>

lemma settle_cleanup_outcome:
  "fst (settle (cleanup t)) = (case failure t of None \<Rightarrow> Resolved | Some e \<Rightarrow> Rejected e)"
  by (simp add: settle_def cleanup_def Let_def)

lemma run_phase_plain:
  "failure t = None \<Longrightarrow> run_phase t (p, plain g)
     = t \<lparr> from_el := fst (g (from_el t, to_el t)), to_el := snd (g (from_el t, to_el t)),
           trace := trace t @ [(p, Resolved)], failure := None \<rparr>"
  by (simp add: run_phase_def plain_def split: prod.splits)

lemma run_phase_hook:
  "failure t = None \<Longrightarrow> run_phase t (p, h)
     = t \<lparr> from_el := fst (snd (h (from_el t, to_el t))), to_el := snd (snd (h (from_el t, to_el t))),
           trace := trace t @ [(p, fst (h (from_el t, to_el t)))],
           failure := (case fst (h (from_el t, to_el t)) of Resolved \<Rightarrow> None | Rejected e \<Rightarrow> Some e) \<rparr>"
  by (simp add: run_phase_def split: prod.splits)

lemma outcome_of_run:
  "fst (illusory parse render options canceled from' to')
     = hook_outcome parse render options canceled from' to'"
proof -
  define s1 where "s1 = (hideNatural (attach from'), hideNatural (attach to'))"
  define t2 where "t2 = foldl run_phase \<lparr> from_el = from', to_el = to', trace = [], failure = None \<rparr>
     [(Normalize, plain id),
      (Attach, plain (\<lambda>(a, b). (hideNatural (attach a), hideNatural (attach b))))]"
  have t2: "failure t2 = None" "(from_el t2, to_el t2) = s1"
    by (simp_all add: t2_def s1_def run_phase_plain)
  define rest2 where "rest2 =
     [(Flush, plain id),
      (BeforeAnimateHook, optional (beforeAnimate options)),
      (ApplyDelta, plain (\<lambda>(a, b). (setStyle ''transform'' (render (getDelta parse a b)) a, b))),
      (AwaitCompletion, plain id),
      (BeforeDetachHook, optional (map_option (\<lambda>f. f canceled) (beforeDetach options)))]"
  define t3 where "t3 = run_phase t2 (BeforeAttachHook, optional (beforeAttach options))"
  have body: "foldl run_phase \<lparr> from_el = from', to_el = to', trace = [], failure = None \<rparr>
      (steps parse render options canceled) = foldl run_phase t3 rest2"
    by (simp add: steps_def t2_def t3_def rest2_def)
  obtain r1 s2 where h1: "optional (beforeAttach options) s1 = (r1, s2)" by (cases "optional (beforeAttach options) s1")
  have t3: "failure t3 = (case r1 of Resolved \<Rightarrow> None | Rejected e \<Rightarrow> Some e)"
    "(from_el t3, to_el t3) = s2"
    using t2 h1 by (simp_all add: t3_def run_phase_hook)
  show ?thesis
  proof (cases r1)
    case (Rejected e)
    then have "failure t3 = Some e" using t3 by simp
    then have "foldl run_phase t3 rest2 = t3" "failure t3 = Some e" by (simp_all add: foldl_failed)
    then show ?thesis
      using h1 Rejected
      by (simp add: illusory_def body settle_cleanup_outcome hook_outcome_def s1_def [symmetric])
  next
    case Resolved
    then have f3: "failure t3 = None" using t3 by simp
    define t4 where "t4 = run_phase t3 (Flush, plain id)"
    have t4: "failure t4 = None" "(from_el t4, to_el t4) = s2"
      using f3 t3(2) by (simp_all add: t4_def run_phase_plain)
    define t5 where "t5 = run_phase t4 (BeforeAnimateHook, optional (beforeAnimate options))"
    obtain r2 a b where h2: "optional (beforeAnimate options) s2 = (r2, (a, b))"
      by (metis prod.exhaust)
    have t5: "failure t5 = (case r2 of Resolved \<Rightarrow> None | Rejected e \<Rightarrow> Some e)"
      "from_el t5 = a" "to_el t5 = b"
      using t4 h2 by (simp_all add: t5_def run_phase_hook)
    define rest5 where "rest5 =
     [(ApplyDelta, plain (\<lambda>(a, b). (setStyle ''transform'' (render (getDelta parse a b)) a, b))),
      (AwaitCompletion, plain id),
      (BeforeDetachHook, optional (map_option (\<lambda>f. f canceled) (beforeDetach options)))]"
    have body5: "foldl run_phase t3 rest2 = foldl run_phase t5 rest5"
      by (simp add: rest2_def rest5_def t4_def t5_def)
    show ?thesis
    proof (cases r2)
      case (Rejected e)
      then have "failure t5 = Some e" using t5 by simp
      then have "foldl run_phase t5 rest5 = t5" "failure t5 = Some e" by (simp_all add: foldl_failed)
      then show ?thesis
        using h1 h2 Resolved Rejected
        by (simp add: illusory_def body body5 settle_cleanup_outcome hook_outcome_def s1_def [symmetric])
    next
      case r2: Resolved
      then have f5: "failure t5 = None" using t5 by simp
      define t6 where "t6 = run_phase t5
         (ApplyDelta, plain (\<lambda>(a, b). (setStyle ''transform'' (render (getDelta parse a b)) a, b)))"
      have t6: "failure t6 = None"
        "(from_el t6, to_el t6) = (setStyle ''transform'' (render (getDelta parse a b)) a, b)"
        using f5 t5(2,3) by (simp_all add: t6_def run_phase_plain)
      define t7 where "t7 = run_phase t6 (AwaitCompletion, plain id)"
      have t7: "failure t7 = None"
        "(from_el t7, to_el t7) = (setStyle ''transform'' (render (getDelta parse a b)) a, b)"
        using t6 by (simp_all add: t7_def run_phase_plain)
      define hd where "hd = optional (map_option (\<lambda>f. f canceled) (beforeDetach options))"
      have "foldl run_phase t5 rest5 = run_phase t7 (BeforeDetachHook, hd)"
        by (simp add: rest5_def t6_def t7_def hd_def)
      moreover have "failure (run_phase t7 (BeforeDetachHook, hd))
          = (case fst (hd (setStyle ''transform'' (render (getDelta parse a b)) a, b)) of
               Resolved \<Rightarrow> None | Rejected e \<Rightarrow> Some e)"
        using t7 by (simp add: run_phase_hook)
      ultimately show ?thesis
        using h1 h2 Resolved r2
        by (simp add: illusory_def body body5 settle_cleanup_outcome hook_outcome_def
            s1_def [symmetric] hd_def [symmetric] split: outcome.splits)
    qed
  qed
qed

text \<open>
  C7. Whatever the hooks do and whether their futures resolve or reject, a run of
  \<open>illusory\<close> ends with both natural elements visible and both clones detached; Cleanup
  is run once, and the returned future settles once, after it. The future rejects only
  where a hook rejects: its outcome is the first rejection among the hooks of the
  options, called in the order of their phases, and \<open>Resolved\<close> where none of them
  rejects; a rejection has the reason with which one of the configured hooks rejects.
\<close>

theorem cleanup_always_runs:
  fixes parse render options canceled from' to'
  defines "run \<equiv> illusory parse render options canceled from' to'"
  shows "naturalVisible (from_el (snd run)) \<and> naturalVisible (to_el (snd run))
       \<and> state (from_el (snd run)) = Detached \<and> state (to_el (snd run)) = Detached
       \<and> map fst (filter (\<lambda>e. fst e = Cleanup \<or> fst e = Done) (trace (snd run))) = [Cleanup, Done]
       \<and> last (trace (snd run)) = (Done, fst run)
       \<and> fst run = (case hook_rejections (trace (snd run)) of
                       [] \<Rightarrow> Resolved | (p, e) # _ \<Rightarrow> Rejected e)
       \<and> fst run = hook_outcome parse render options canceled from' to'
       \<and> (\<forall>e. fst run = Rejected e
            \<longrightarrow> (\<exists>h \<in> set (configured options canceled). \<exists>s. fst (h s) = Rejected e))"
proof -
  define t where "t = foldl run_phase \<lparr> from_el = from', to_el = to', trace = [], failure = None \<rparr>
                 (steps parse render options canceled)"
  have c: "consistent t"
    unfolding t_def by (rule body_consistent)
  have run: "run = settle (cleanup t)"
    by (simp add: run_def illusory_def t_def)
  have none: "filter (\<lambda>e. fst e = Cleanup \<or> fst e = Done) (trace t) = []"
    using c by (force simp add: consistent_def filter_empty_conv)
  have f: "failure t = (case hook_rejections (trace t) of [] \<Rightarrow> None | (p, e) # _ \<Rightarrow> Some e)"
    using c by (simp add: consistent_def)
  have main: "naturalVisible (from_el (snd run)) \<and> naturalVisible (to_el (snd run))
       \<and> state (from_el (snd run)) = Detached \<and> state (to_el (snd run)) = Detached
       \<and> map fst (filter (\<lambda>e. fst e = Cleanup \<or> fst e = Done) (trace (snd run))) = [Cleanup, Done]
       \<and> last (trace (snd run)) = (Done, fst run)
       \<and> fst run = (case hook_rejections (trace (snd run)) of
                       [] \<Rightarrow> Resolved | (p, e) # _ \<Rightarrow> Rejected e)"
    using none f
    by (auto simp add: run settle_def cleanup_def Let_def detach_def showNatural_def
        hook_rejections_append split: option.splits list.splits)
  have only: "\<forall>e. fst run = Rejected e
       \<longrightarrow> (\<exists>h \<in> set (configured options canceled). \<exists>s. fst (h s) = Rejected e)"
  proof (intro allI impI)
    fix e
    assume "fst run = Rejected e"
    then have "failure t = Some e"
      by (simp add: run settle_def cleanup_def Let_def split: option.splits)
    then have "\<exists>step \<in> set (steps parse render options canceled). \<exists>s. fst (snd step s) = Rejected e"
      using foldl_failure [where t = "\<lparr> from_el = from', to_el = to', trace = [], failure = None \<rparr>"
          and l = "steps parse render options canceled" and e = e]
      by (simp add: t_def)
    then show "\<exists>h \<in> set (configured options canceled). \<exists>s. fst (h s) = Rejected e"
      using steps_reject_by_hooks by blast
  qed
  have outcome: "fst run = hook_outcome parse render options canceled from' to'"
    unfolding run_def by (rule outcome_of_run)
  from main only outcome show ?thesis by blast
qed

text \<open>A run whose \<open>beforeAnimate\<close> hook shows the natural element of start again and
  then rejects: the phases after the hook are left out, Cleanup is not.\<close>

lemma rejecting_run:
  "illusory origin_50_25 (\<lambda>_. ''none'') rejecting False example_start example_end
   = (Rejected ''boom'',
      \<lparr> from_el = example_start \<lparr> state := Detached, naturalVisible := True \<rparr>,
        to_el = example_end \<lparr> state := Detached, naturalVisible := True \<rparr>,
        trace = [(Normalize, Resolved), (Attach, Resolved), (BeforeAttachHook, Resolved),
                 (Flush, Resolved), (BeforeAnimateHook, Rejected ''boom''),
                 (Cleanup, Resolved), (Done, Rejected ''boom'')],
        failure = Some ''boom'' \<rparr>)"
  by (simp add: illusory_def steps_def run_phase_def rejecting_def plain_def optional_def
      settle_def cleanup_def attach_def detach_def hideNatural_def showNatural_def examples Let_def)

theorem cleanup_always_runs_witness:
  "fst (illusory origin_50_25 (\<lambda>_. ''none'') rejecting False example_start example_end)
     = Rejected ''boom''
   \<and> (\<exists>h \<in> set (configured rejecting False). \<exists>s. fst (h s) = Rejected ''boom'')
   \<and> hook_outcome origin_50_25 (\<lambda>_. ''none'') rejecting False example_start example_end
     = Rejected ''boom''
   \<and> map fst (trace (snd (illusory origin_50_25 (\<lambda>_. ''none'') rejecting False
                              example_start example_end)))
     = [Normalize, Attach, BeforeAttachHook, Flush, BeforeAnimateHook, Cleanup, Done]
   \<and> naturalVisible (from_el (snd (illusory origin_50_25 (\<lambda>_. ''none'') rejecting False
                              example_start example_end)))
   \<and> state (from_el (snd (illusory origin_50_25 (\<lambda>_. ''none'') rejecting False
                              example_start example_end))) = Detached"
proof -
  note W = cleanup_always_runs [where parse = origin_50_25 and render = "\<lambda>_. ''none''"
      and options = rejecting and canceled = False and from' = example_start
      and to' = example_end]
  have r: "fst (illusory origin_50_25 (\<lambda>_. ''none'') rejecting False example_start example_end)
     = Rejected ''boom''"
    by (simp add: rejecting_run)
  have h: "\<exists>h \<in> set (configured rejecting False). \<exists>s. fst (h s) = Rejected ''boom''"
    using W r by blast
  have "fst (illusory origin_50_25 (\<lambda>_. ''none'') rejecting False example_start example_end)
     = hook_outcome origin_50_25 (\<lambda>_. ''none'') rejecting False example_start example_end"
    using W by blast
  then have o: "hook_outcome origin_50_25 (\<lambda>_. ''none'') rejecting False example_start example_end
     = Rejected ''boom''"
    using r by simp
  have t: "map fst (trace (snd (illusory origin_50_25 (\<lambda>_. ''none'') rejecting False
                              example_start example_end)))
     = [Normalize, Attach, BeforeAttachHook, Flush, BeforeAnimateHook, Cleanup, Done]"
    by (simp add: rejecting_run)
  from W r h o t show ?thesis by blast
qed

end
